theory Spec2Isabelle
  imports Main "HOL-Library.Word"
begin

section \<open>Data model of socket-activate.go\<close>

text \<open>
  Durations are Go's \<open>time.Duration\<close> (signed 64-bit nanoseconds) and clock readings
  are nanoseconds of the monotonic clock. Both are modelled as \<open>int\<close>; the only
  arithmetic the program does on them is bounded (see \<open>backoff_delay_bounds\<close>).
\<close>

type_synonym duration = int
type_synonym time = int
type_synonym conn = nat
type_synonym bytes = "8 word list"

definition Millisecond :: duration where
  "Millisecond = 1000000"

definition Second :: duration where
  "Second = 1000 * Millisecond"

text \<open>
  The command-line flags (the \<open>var (...)\<close> block of the source) together with the two
  process-environment values that \<open>main\<close> compares: the value of \<open>LISTEN_PID\<close> and
  the decimal rendering \<open>strconv.Itoa(os.Getpid())\<close>.
\<close>

record config =
  mode :: string
  targetUnit :: string
  destinationAddress :: string
  timeout :: duration
  user :: bool
  backendTimeout :: duration
  env_LISTEN_PID :: string
  itoa_pid :: string

datatype tid = MainT | SupT | FwdT nat

datatype target = Listener | Conn conn

datatype msg =
    MsgNotSystemd
  | MsgError
  | MsgRegression
  | MsgBackendTimeout duration
  | MsgRetry duration

datatype action =
    BusConnect bool
  | SpawnSupervisor
  | StartUnit string
  | StopUnit string
  | Listen
  | Signal
  | Accept conn
  | AcceptFailed
  | DialOk conn
  | DialFail
  | Sleep duration
  | Spawn conn conn
  | ReadOk bytes
  | ReadErr
  | Write conn bytes
  | Close target
  | Print msg
  | Return
  | Exit int

type_synonym entry = "time \<times> tid \<times> action"

text \<open>Program counters of the main goroutine: \<open>main\<close> with \<open>startTCPProxy\<close> inlined.\<close>

datatype main_pc =
    M_CheckEnv
  | M_NewCtrl
  | M_SpawnSup
  | M_StartUnit
  | P_Listen
  | P_Send
  | P_Accept
  | P_Dial conn
  | P_Sleep conn time

text \<open>
  The goroutine running \<open>terminateWithoutActivity\<close>: not started, or waiting in its
  \<open>select\<close> with the timer of \<open>time.After\<close> created at the given clock reading.
\<close>

datatype sup_pc = S_None | S_Select time

datatype fwd_pc = F_Read | F_Send bytes | F_Write bytes | F_Done

record fwd =
  from_conn :: conn
  to_conn :: conn
  fpc :: fwd_pc

record state =
  now :: time
  exited :: "int option"
  mpc :: main_pc
  hadSuccessfulConnection :: bool
  startTime :: time
  attempt :: nat
  supervisor :: sup_pc
  fwds :: "fwd list"
  trace :: "entry list"

text \<open>
  What the environment answers to the operation a goroutine is waiting on: \<open>Go\<close> for a
  step that needs no answer (a channel hand-off, a timer), \<open>Ok\<close>/\<open>Err\<close> for a call that
  returns an error value, \<open>OkConn\<close> for a call that returns a connection, and
  \<open>ReadRes bs err\<close> for \<open>Read\<close> returning \<open>len bs\<close> bytes and the error flag.
\<close>

datatype resp = Go | Ok | Err | OkConn conn | ReadRes bytes bool

datatype event = Tick duration | MainE resp | SupE resp | FwdE nat resp

section \<open>Operations\<close>

definition init :: state where
  "init = \<lparr> now = 0, exited = None, mpc = M_CheckEnv, hadSuccessfulConnection = False,
            startTime = 0, attempt = 0, supervisor = S_None, fwds = [], trace = [] \<rparr>"

definition log_action :: "tid \<Rightarrow> action \<Rightarrow> state \<Rightarrow> state" where
  "log_action t a s = s\<lparr> trace := trace s @ [(now s, t, a)] \<rparr>"

text \<open>\<open>os.Exit(code)\<close>: the whole process ends; deferred calls do not run.\<close>

definition os_Exit :: "tid \<Rightarrow> int \<Rightarrow> state \<Rightarrow> state" where
  "os_Exit t code s = (log_action t (Exit code) s)\<lparr> exited := Some code \<rparr>"

text \<open>\<open>log.Fatal\<close> prints and then calls \<open>os.Exit(1)\<close>.\<close>

definition log_Fatal :: "tid \<Rightarrow> msg \<Rightarrow> state \<Rightarrow> state" where
  "log_Fatal t m s = os_Exit t 1 (log_action t (Print m) s)"

definition maxRetries :: nat where
  "maxRetries = 10"

text \<open>Lines 130-133: \<open>attempt++; if attempt >= maxRetries { attempt = maxRetries - 1 }\<close>.\<close>

definition next_attempt :: "nat \<Rightarrow> nat" where
  "next_attempt a = (let a' = a + 1 in if a' \<ge> maxRetries then maxRetries - 1 else a')"

text \<open>Line 136: \<open>time.Duration(500*(1<<attempt)) * time.Millisecond\<close>.\<close>

definition backoff_delay :: "nat \<Rightarrow> duration" where
  "backoff_delay a = (500 * 2 ^ a) * Millisecond"

text \<open>
  An unbuffered channel send completes only in a hand-off with a goroutine that is
  receiving. The only receiver of \<open>activityMonitor\<close> is the \<open>select\<close> of
  \<open>terminateWithoutActivity\<close>; after the receive its loop re-enters the \<open>select\<close> and
  \<open>time.After\<close> creates a new timer.
\<close>

definition send_activity :: "tid \<Rightarrow> state \<Rightarrow> state option" where
  "send_activity t s =
     (case supervisor s of
        S_None \<Rightarrow> None
      | S_Select t0 \<Rightarrow> Some ((log_action t Signal s)\<lparr> supervisor := S_Select (now s) \<rparr>))"

text \<open>Lines 117-138: what the inner loop does after a failed \<open>net.Dial\<close>.\<close>

definition dial_failed :: "config \<Rightarrow> conn \<Rightarrow> state \<Rightarrow> state" where
  "dial_failed cfg c s =
     (if hadSuccessfulConnection s then
        os_Exit MainT 0 (log_action MainT (Print MsgRegression) s)
      else if now s - startTime s > backendTimeout cfg then
        os_Exit MainT 0 (log_action MainT (Print (MsgBackendTimeout (backendTimeout cfg))) s)
      else
        let a = next_attempt (attempt s);
            delay = backoff_delay a
        in (log_action MainT (Sleep delay) (log_action MainT (Print (MsgRetry delay)) s))
             \<lparr> attempt := a, mpc := P_Sleep c (now s + delay) \<rparr>)"

definition main_step :: "config \<Rightarrow> state \<Rightarrow> resp \<Rightarrow> state option" where
  "main_step cfg s r =
     (case mpc s of
        M_CheckEnv \<Rightarrow>
          (case r of
             Go \<Rightarrow> Some (if env_LISTEN_PID cfg \<noteq> itoa_pid cfg
                         then log_Fatal MainT MsgNotSystemd s
                         else s\<lparr> mpc := M_NewCtrl \<rparr>)
           | _ \<Rightarrow> None)
      | M_NewCtrl \<Rightarrow>
          (case r of
             Ok \<Rightarrow> Some ((log_action MainT (BusConnect (user cfg)) s)\<lparr> mpc := M_SpawnSup \<rparr>)
           | Err \<Rightarrow> Some (log_Fatal MainT MsgError (log_action MainT (BusConnect (user cfg)) s))
           | _ \<Rightarrow> None)
      | M_SpawnSup \<Rightarrow>
          (case r of
             Go \<Rightarrow> Some (if timeout cfg \<noteq> 0
                         then (log_action MainT SpawnSupervisor s)
                                \<lparr> supervisor := S_Select (now s), mpc := M_StartUnit \<rparr>
                         else s\<lparr> mpc := M_StartUnit \<rparr>)
           | _ \<Rightarrow> None)
      | M_StartUnit \<Rightarrow>
          (case r of
             Ok \<Rightarrow> Some ((log_action MainT (StartUnit (targetUnit cfg)) s)\<lparr> mpc := P_Listen \<rparr>)
           | Err \<Rightarrow> Some (log_Fatal MainT MsgError
                            (log_action MainT (StartUnit (targetUnit cfg)) s))
           | _ \<Rightarrow> None)
      | P_Listen \<Rightarrow>
          (case r of
             Ok \<Rightarrow> Some ((log_action MainT Listen s)
                           \<lparr> hadSuccessfulConnection := False, startTime := now s,
                             mpc := P_Send \<rparr>)
           | Err \<Rightarrow> Some (log_Fatal MainT MsgError s)
           | _ \<Rightarrow> None)
      | P_Send \<Rightarrow>
          (case r of
             Go \<Rightarrow> map_option (\<lambda>s'. s'\<lparr> mpc := P_Accept \<rparr>) (send_activity MainT s)
           | _ \<Rightarrow> None)
      | P_Accept \<Rightarrow>
          (case r of
             OkConn c \<Rightarrow> Some ((log_action MainT (Accept c) s)\<lparr> attempt := 0, mpc := P_Dial c \<rparr>)
           | Err \<Rightarrow> Some (os_Exit MainT 0
                            (log_action MainT Return
                              (log_action MainT (Close Listener)
                                (log_action MainT (Print MsgError)
                                  (log_action MainT AcceptFailed s)))))
           | _ \<Rightarrow> None)
      | P_Dial c \<Rightarrow>
          (case r of
             OkConn b \<Rightarrow>
               Some ((log_action MainT (Spawn b c)
                       (log_action MainT (Spawn c b)
                         (log_action MainT (DialOk b) s)))
                     \<lparr> hadSuccessfulConnection := True,
                       fwds := fwds s @ [\<lparr> from_conn = c, to_conn = b, fpc = F_Read \<rparr>,
                                         \<lparr> from_conn = b, to_conn = c, fpc = F_Read \<rparr>],
                       mpc := P_Send \<rparr>)
           | Err \<Rightarrow> Some (dial_failed cfg c (log_action MainT DialFail s))
           | _ \<Rightarrow> None)
      | P_Sleep c w \<Rightarrow>
          (case r of
             Go \<Rightarrow> (if now s \<ge> w then Some (s\<lparr> mpc := P_Dial c \<rparr>) else None)
           | _ \<Rightarrow> None))"

text \<open>
  \<open>terminateWithoutActivity\<close>: the timer branch of the \<open>select\<close> can be taken once at
  least \<open>timeout\<close> has passed since the timer was created. It calls
  \<open>stopSystemdUnit\<close> (which ends in \<open>log.Fatal\<close> when the call fails) and then
  \<open>os.Exit(0)\<close>. The receive branch is the hand-off of \<open>send_activity\<close>.
\<close>

definition sup_step :: "config \<Rightarrow> state \<Rightarrow> resp \<Rightarrow> state option" where
  "sup_step cfg s r =
     (case supervisor s of
        S_None \<Rightarrow> None
      | S_Select t0 \<Rightarrow>
          (if now s - t0 \<ge> timeout cfg then
             (case r of
                Ok \<Rightarrow> Some (os_Exit SupT 0 (log_action SupT (StopUnit (targetUnit cfg)) s))
              | Err \<Rightarrow> Some (log_Fatal SupT MsgError
                               (log_action SupT (StopUnit (targetUnit cfg)) s))
              | _ \<Rightarrow> None)
           else None))"

definition buffer_size :: nat where
  "buffer_size = 1024"

definition set_fpc :: "nat \<Rightarrow> fwd_pc \<Rightarrow> state \<Rightarrow> state" where
  "set_fpc i p s = s\<lparr> fwds := (fwds s)[i := (fwds s ! i)\<lparr> fpc := p \<rparr>] \<rparr>"

text \<open>\<open>proxyNetworkConnections\<close>, one step of goroutine number \<open>i\<close>.\<close>

definition fwd_step :: "config \<Rightarrow> state \<Rightarrow> nat \<Rightarrow> resp \<Rightarrow> state option" where
  "fwd_step cfg s i r =
     (if i < length (fwds s) then
        (case fpc (fwds s ! i) of
           F_Read \<Rightarrow>
             (case r of
                ReadRes bs err \<Rightarrow>
                  (if length bs \<le> buffer_size then
                     Some (if err then set_fpc i F_Done
                                         (log_action (FwdT i) Return
                                           (log_action (FwdT i) ReadErr s))
                           else set_fpc i (F_Send bs) (log_action (FwdT i) (ReadOk bs) s))
                   else None)
              | _ \<Rightarrow> None)
         | F_Send bs \<Rightarrow>
             (case r of
                Go \<Rightarrow> map_option (set_fpc i (F_Write bs)) (send_activity (FwdT i) s)
              | _ \<Rightarrow> None)
         | F_Write bs \<Rightarrow>
             (case r of
                Ok \<Rightarrow> Some (set_fpc i F_Read
                              (log_action (FwdT i) (Write (to_conn (fwds s ! i)) bs) s))
              | Err \<Rightarrow> Some (set_fpc i F_Read
                               (log_action (FwdT i) (Write (to_conn (fwds s ! i)) bs) s))
              | _ \<Rightarrow> None)
         | F_Done \<Rightarrow> None)
      else None)"

text \<open>
  One step of the process. Nothing runs after the process has exited. \<open>Tick d\<close> lets
  \<open>d\<close> nanoseconds pass.
\<close>

definition step :: "config \<Rightarrow> state \<Rightarrow> event \<Rightarrow> state option" where
  "step cfg s e =
     (if exited s \<noteq> None then None
      else case e of
             Tick d \<Rightarrow> (if d \<ge> 0 then Some (s\<lparr> now := now s + d \<rparr>) else None)
           | MainE r \<Rightarrow> main_step cfg s r
           | SupE r \<Rightarrow> sup_step cfg s r
           | FwdE i r \<Rightarrow> fwd_step cfg s i r)"

fun run :: "config \<Rightarrow> state \<Rightarrow> event list \<Rightarrow> state option" where
  "run cfg s [] = Some s"
| "run cfg s (e # es) = (case step cfg s e of None \<Rightarrow> None | Some s' \<Rightarrow> run cfg s' es)"

section \<open>The dial loop of the older variant (socket-activator.go)\<close>

datatype old_outcome = OldDialing | OldSpawn | OldAbandon

text \<open>Lines 103-108: after the loop, \<open>if tryCount >= 10 { continue }\<close>, else the two
  forwarders are started.\<close>

definition old_after_loop :: "nat \<Rightarrow> old_outcome" where
  "old_after_loop tryCount = (if tryCount \<ge> 10 then OldAbandon else OldSpawn)"

text \<open>
  Lines 92-102, the loop \<open>for tryCount < 10\<close>, run on the results of the successive
  \<open>net.Dial\<close> calls (\<open>True\<close> for a connection, \<open>False\<close> for an error). The result is
  the outcome, the final value of \<open>tryCount\<close> and what the loop printed and slept.
  With the results used up and the guard true, the loop is waiting in the next dial.
\<close>

fun old_dial_loop :: "nat \<Rightarrow> bool list \<Rightarrow> old_outcome \<times> nat \<times> action list" where
  "old_dial_loop tryCount [] =
     (if tryCount < 10 then (OldDialing, tryCount, [])
      else (old_after_loop tryCount, tryCount, []))"
| "old_dial_loop tryCount (ok # rest) =
     (if tryCount < 10 then
        (if \<not> ok then
           (case old_dial_loop tryCount rest of
              (out, n, as) \<Rightarrow> (out, n, Print MsgError # Sleep (100 * Millisecond) # as))
         else (old_after_loop tryCount, tryCount, []))
      else (old_after_loop tryCount, tryCount, []))"

text \<open>Line 92: \<open>tryCount := 0\<close> for every accepted connection.\<close>

definition old_connect :: "bool list \<Rightarrow> old_outcome \<times> nat \<times> action list" where
  "old_connect results = old_dial_loop 0 results"

section \<open>Observations on the trace\<close>

definition acts :: "entry list \<Rightarrow> action list" where
  "acts tr = map (\<lambda>e. snd (snd e)) tr"

definition disabled_inv :: "state \<Rightarrow> bool" where
  "disabled_inv s \<longleftrightarrow>
     supervisor s = S_None \<and> fwds s = [] \<and> Signal \<notin> set (acts (trace s)) \<and>
     (\<forall>c. Accept c \<notin> set (acts (trace s))) \<and>
     mpc s \<in> {M_CheckEnv, M_NewCtrl, M_SpawnSup, M_StartUnit, P_Listen, P_Send}"

definition is_dial_ok :: "action \<Rightarrow> bool" where
  "is_dial_ok a = (case a of DialOk b \<Rightarrow> True | _ \<Rightarrow> False)"

text \<open>Some \<open>net.Dial\<close> of this process has returned a connection.\<close>

definition dial_succeeded :: "entry list \<Rightarrow> bool" where
  "dial_succeeded tr = list_ex is_dial_ok (acts tr)"

text \<open>
  The number of failed dials of the connection attempt in progress: the failures
  logged since the last accepted connection.
\<close>

definition cf_step :: "nat \<Rightarrow> action \<Rightarrow> nat" where
  "cf_step n a = (case a of Accept c \<Rightarrow> 0 | DialFail \<Rightarrow> Suc n | _ \<Rightarrow> n)"

definition consecutive_failures :: "entry list \<Rightarrow> nat" where
  "consecutive_failures tr = foldl cf_step 0 (acts tr)"

definition time_of_first :: "(action \<Rightarrow> bool) \<Rightarrow> entry list \<Rightarrow> time option" where
  "time_of_first P tr = map_option fst (find (\<lambda>e. P (snd (snd e))) tr)"

text \<open>When \<open>startTCPProxy\<close> obtained its listener (lines 91-98).\<close>

definition proxy_start :: "entry list \<Rightarrow> time option" where
  "proxy_start tr = time_of_first (\<lambda>a. a = Listen) tr"

text \<open>When the first \<open>net.Dial\<close> of the process returned.\<close>

definition first_dial :: "entry list \<Rightarrow> time option" where
  "first_dial tr = time_of_first (\<lambda>a. a = DialFail \<or> is_dial_ok a) tr"

text \<open>When the first connection was accepted, which is when the first dial began.\<close>

definition first_accept :: "entry list \<Rightarrow> time option" where
  "first_accept tr = time_of_first (\<lambda>a. case a of Accept c \<Rightarrow> True | _ \<Rightarrow> False) tr"

text \<open>\<open>main\<close> has not yet reached the accept loop.\<close>

definition starting :: "state \<Rightarrow> bool" where
  "starting s = (case mpc s of M_CheckEnv \<Rightarrow> True | M_NewCtrl \<Rightarrow> True | M_SpawnSup \<Rightarrow> True
                 | M_StartUnit \<Rightarrow> True | P_Listen \<Rightarrow> True | _ \<Rightarrow> False)"

text \<open>The main goroutine is in the inner dial loop (lines 112-139).\<close>

definition dialing :: "state \<Rightarrow> bool" where
  "dialing s = (case mpc s of P_Dial c \<Rightarrow> True | P_Sleep c w \<Rightarrow> True | _ \<Rightarrow> False)"

definition had_inv :: "state \<Rightarrow> bool" where
  "had_inv s \<longleftrightarrow>
     (hadSuccessfulConnection s \<longleftrightarrow> dial_succeeded (trace s)) \<and>
     (starting s \<longrightarrow> \<not> dial_succeeded (trace s))"

definition start_inv :: "state \<Rightarrow> bool" where
  "start_inv s \<longleftrightarrow>
     proxy_start (trace s) = (if starting s then None else Some (startTime s))"

definition attempt_inv :: "state \<Rightarrow> bool" where
  "attempt_inv s \<longleftrightarrow>
     (exited s = None \<and> dialing s \<longrightarrow> attempt s = min (consecutive_failures (trace s)) 9)"

definition dial_inv :: "state \<Rightarrow> bool" where
  "dial_inv s \<longleftrightarrow> had_inv s \<and> start_inv s \<and> attempt_inv s"

definition is_start :: "action \<Rightarrow> bool" where
  "is_start a = (case a of StartUnit u \<Rightarrow> True | _ \<Rightarrow> False)"

definition is_stop :: "action \<Rightarrow> bool" where
  "is_stop a = (case a of StopUnit u \<Rightarrow> True | _ \<Rightarrow> False)"

definition is_accept :: "action \<Rightarrow> bool" where
  "is_accept a = (case a of Accept c \<Rightarrow> True | AcceptFailed \<Rightarrow> True | _ \<Rightarrow> False)"

definition starts :: "entry list \<Rightarrow> entry list" where
  "starts tr = filter (\<lambda>e. is_start (snd (snd e))) tr"

definition stops :: "entry list \<Rightarrow> entry list" where
  "stops tr = filter (\<lambda>e. is_stop (snd (snd e))) tr"

definition arm_times :: "entry list \<Rightarrow> time list" where
  "arm_times tr =
     map fst (filter (\<lambda>e. snd (snd e) = SpawnSupervisor \<or> snd (snd e) = Signal) tr)"

fun gaps_lt :: "duration \<Rightarrow> time list \<Rightarrow> bool" where
  "gaps_lt d (t1 # t2 # ts) = (t2 - t1 < d \<and> gaps_lt d (t2 # ts))"
| "gaps_lt d ts = True"

definition sup_inv :: "config \<Rightarrow> state \<Rightarrow> bool" where
  "sup_inv cfg s \<longleftrightarrow>
     (case supervisor s of
        S_None \<Rightarrow> stops (trace s) = []
      | S_Select t0 \<Rightarrow>
          timeout cfg \<noteq> 0 \<and> arm_times (trace s) \<noteq> [] \<and> last (arm_times (trace s)) = t0) \<and>
     (if exited s = None then stops (trace s) = []
      else stops (trace s) = [] \<or>
           (stops (trace s) = [(now s, SupT, StopUnit (targetUnit cfg))] \<and>
            timeout cfg \<noteq> 0 \<and> arm_times (trace s) \<noteq> [] \<and>
            timeout cfg \<le> now s - last (arm_times (trace s))))"

fun accepts_after_start :: "nat \<Rightarrow> action list \<Rightarrow> bool" where
  "accepts_after_start n [] = True"
| "accepts_after_start n (a # as) =
     ((is_accept a \<longrightarrow> n = 1) \<and> accepts_after_start (if is_start a then Suc n else n) as)"

definition unit_inv :: "state \<Rightarrow> bool" where
  "unit_inv s \<longleftrightarrow>
     accepts_after_start 0 (acts (trace s)) \<and>
     (case mpc s of
        M_CheckEnv \<Rightarrow> starts (trace s) = []
      | M_NewCtrl \<Rightarrow> starts (trace s) = []
      | M_SpawnSup \<Rightarrow> starts (trace s) = []
      | M_StartUnit \<Rightarrow>
          length (starts (trace s)) \<le> 1 \<and> (exited s = None \<longrightarrow> starts (trace s) = [])
      | _ \<Rightarrow> length (starts (trace s)) = 1)"

definition fwd_acts :: "nat \<Rightarrow> entry list \<Rightarrow> action list" where
  "fwd_acts i tr = acts (filter (\<lambda>e. fst (snd e) = FwdT i) tr)"

definition rounds :: "conn \<Rightarrow> bytes list \<Rightarrow> action list" where
  "rounds d bss = concat (map (\<lambda>bs. [ReadOk bs, Signal, Write d bs]) bss)"

definition pending :: "fwd_pc \<Rightarrow> action list" where
  "pending p = (case p of F_Read \<Rightarrow> [] | F_Send bs \<Rightarrow> [ReadOk bs]
                | F_Write bs \<Rightarrow> [ReadOk bs, Signal] | F_Done \<Rightarrow> [ReadErr, Return])"

definition fwd_shape :: "state \<Rightarrow> nat \<Rightarrow> bool" where
  "fwd_shape s i \<longleftrightarrow>
     (if i < length (fwds s)
      then \<exists>bss. fwd_acts i (trace s)
                   = rounds (to_conn (fwds s ! i)) bss @ pending (fpc (fwds s ! i))
      else fwd_acts i (trace s) = [])"

definition conn_closed :: "entry list \<Rightarrow> bool" where
  "conn_closed tr = list_ex (\<lambda>a. case a of Close (Conn c) \<Rightarrow> True | _ \<Rightarrow> False) (acts tr)"

definition fwd_inv :: "state \<Rightarrow> bool" where
  "fwd_inv s \<longleftrightarrow> (\<forall>i. fwd_shape s i) \<and> \<not> conn_closed (trace s)"

definition armed_inv :: "state \<Rightarrow> bool" where
  "armed_inv s \<longleftrightarrow>
     (supervisor s = S_None \<longrightarrow> fwds s = [] \<and> (starting s \<or> mpc s = P_Send))"

section \<open>Example configurations\<close>

text \<open>The flag defaults of the source, with \<open>-t\<close> and \<open>-backend-timeout\<close> given.\<close>

definition example_config :: "duration \<Rightarrow> duration \<Rightarrow> config" where
  "example_config t bt =
     \<lparr> mode = ''tcp'', targetUnit = ''x.service'', destinationAddress = ''127.0.0.1:80'',
       timeout = t, user = False, backendTimeout = bt,
       env_LISTEN_PID = ''42'', itoa_pid = ''42'' \<rparr>"

text \<open>The events that take \<open>main\<close> from its first line to the head of the accept loop.\<close>

definition startup :: "event list" where
  "startup = [MainE Go, MainE Ok, MainE Go, MainE Ok, MainE Ok]"

definition failed_round :: "duration \<Rightarrow> event list" where
  "failed_round d = [MainE Err, Tick d, MainE Go]"

definition nine_failures :: "event list" where
  "nine_failures =
     startup @ [MainE Go, MainE (OkConn 1)] @
     concat (map (\<lambda>n. failed_round (n * Second)) [1, 2, 4, 8, 16, 32, 64, 128, 256])"

definition late_first_client :: "event list" where
  "late_first_client = startup @ [MainE Go, Tick (40 * Second), MainE (OkConn 1)]"

definition second_client :: "event list" where
  "second_client = startup @ [MainE Go, MainE (OkConn 1), MainE (OkConn 2), MainE Go, MainE (OkConn 3)]"

definition first_client :: "event list" where
  "first_client = startup @ [MainE Go, MainE (OkConn 1)]"

definition unactivated_config :: config where
  "unactivated_config = (example_config (2 * Second) (30 * Second))\<lparr> env_LISTEN_PID := [] \<rparr>"

definition idle_period :: "event list" where
  "idle_period = startup @ [Tick (2 * Second)]"

definition active_second :: "event list" where
  "active_second = startup @ [MainE Go, Tick (1 * Second)]"

definition one_pair :: "event list" where
  "one_pair = startup @ [MainE Go, MainE (OkConn 1), MainE (OkConn 2)]"

definition one_chunk :: "event list" where
  "one_chunk = one_pair @ [FwdE 0 (ReadRes [104, 105] False), FwdE 0 Go, FwdE 0 Ok]"

definition client_gone :: "event list" where
  "client_gone = one_pair @ [FwdE 0 (ReadRes [] True), FwdE 1 (ReadRes [111, 107] False),
                             FwdE 1 Go, FwdE 1 Ok]"

section \<open>Basic facts\<close>

lemmas effect_defs =
  send_activity_def dial_failed_def log_action_def os_Exit_def log_Fatal_def set_fpc_def

lemma acts_simps [simp]:
  "acts [] = []"
  "acts (tr @ tr') = acts tr @ acts tr'"
  "acts ((t, i, a) # tr) = a # acts tr"
  by (simp_all add: acts_def)

lemma run_append:
  "run cfg s (es @ es') = (case run cfg s es of None \<Rightarrow> None | Some s' \<Rightarrow> run cfg s' es')"
  by (induction es arbitrary: s) (auto split: option.splits)

lemma run_invariant:
  assumes "run cfg s es = Some s'" and "I s"
    and "\<And>s e s'. I s \<Longrightarrow> step cfg s e = Some s' \<Longrightarrow> I s'"
  shows "I s'"
  using assms(1,2)
proof (induction es arbitrary: s)
  case Nil
  then show ?case by simp
next
  case (Cons e es)
  then show ?case by (auto split: option.splits intro: assms(3))
qed

lemma step_cases [consumes 1, case_names Tick Main Sup Fwd]:
  assumes "step cfg s e = Some s'"
  obtains d where "e = Tick d" "d \<ge> 0" "s' = s\<lparr>now := now s + d\<rparr>" "exited s = None"
  | r where "e = MainE r" "main_step cfg s r = Some s'" "exited s = None"
  | r where "e = SupE r" "sup_step cfg s r = Some s'" "exited s = None"
  | i r where "e = FwdE i r" "fwd_step cfg s i r = Some s'" "exited s = None"
  using assms by (cases e) (auto simp: step_def split: if_splits)

lemma main_step_elim [consumes 1, case_names CheckEnvFail CheckEnvOk NewCtrlOk NewCtrlErr
    SpawnSup NoSup StartOk StartErr ListenOk ListenErr Send AcceptOk AcceptErr DialOk
    Regression BackendTimeout Retry Wake]:
  assumes "main_step cfg s r = Some s'"
  obtains
    "mpc s = M_CheckEnv" "r = Go" "env_LISTEN_PID cfg \<noteq> itoa_pid cfg"
      "s' = log_Fatal MainT MsgNotSystemd s"
  | "mpc s = M_CheckEnv" "r = Go" "env_LISTEN_PID cfg = itoa_pid cfg"
      "s' = s\<lparr> mpc := M_NewCtrl \<rparr>"
  | "mpc s = M_NewCtrl" "r = Ok"
      "s' = (log_action MainT (BusConnect (user cfg)) s)\<lparr> mpc := M_SpawnSup \<rparr>"
  | "mpc s = M_NewCtrl" "r = Err"
      "s' = log_Fatal MainT MsgError (log_action MainT (BusConnect (user cfg)) s)"
  | "mpc s = M_SpawnSup" "r = Go" "timeout cfg \<noteq> 0"
      "s' = (log_action MainT SpawnSupervisor s)
              \<lparr> supervisor := S_Select (now s), mpc := M_StartUnit \<rparr>"
  | "mpc s = M_SpawnSup" "r = Go" "timeout cfg = 0" "s' = s\<lparr> mpc := M_StartUnit \<rparr>"
  | "mpc s = M_StartUnit" "r = Ok"
      "s' = (log_action MainT (StartUnit (targetUnit cfg)) s)\<lparr> mpc := P_Listen \<rparr>"
  | "mpc s = M_StartUnit" "r = Err"
      "s' = log_Fatal MainT MsgError (log_action MainT (StartUnit (targetUnit cfg)) s)"
  | "mpc s = P_Listen" "r = Ok"
      "s' = (log_action MainT Listen s)
              \<lparr> hadSuccessfulConnection := False, startTime := now s, mpc := P_Send \<rparr>"
  | "mpc s = P_Listen" "r = Err" "s' = log_Fatal MainT MsgError s"
  | t0 where "mpc s = P_Send" "r = Go" "supervisor s = S_Select t0"
      "s' = (log_action MainT Signal s)\<lparr> supervisor := S_Select (now s), mpc := P_Accept \<rparr>"
  | c where "mpc s = P_Accept" "r = OkConn c"
      "s' = (log_action MainT (Accept c) s)\<lparr> attempt := 0, mpc := P_Dial c \<rparr>"
  | "mpc s = P_Accept" "r = Err"
      "s' = os_Exit MainT 0 (log_action MainT Return (log_action MainT (Close Listener)
              (log_action MainT (Print MsgError) (log_action MainT AcceptFailed s))))"
  | c b where "mpc s = P_Dial c" "r = OkConn b"
      "s' = (log_action MainT (Spawn b c) (log_action MainT (Spawn c b)
               (log_action MainT (DialOk b) s)))
             \<lparr> hadSuccessfulConnection := True,
               fwds := fwds s @ [\<lparr> from_conn = c, to_conn = b, fpc = F_Read \<rparr>,
                                 \<lparr> from_conn = b, to_conn = c, fpc = F_Read \<rparr>],
               mpc := P_Send \<rparr>"
  | c where "mpc s = P_Dial c" "r = Err" "hadSuccessfulConnection s"
      "s' = os_Exit MainT 0 (log_action MainT (Print MsgRegression)
              (log_action MainT DialFail s))"
  | c where "mpc s = P_Dial c" "r = Err" "\<not> hadSuccessfulConnection s"
      "now s - startTime s > backendTimeout cfg"
      "s' = os_Exit MainT 0 (log_action MainT (Print (MsgBackendTimeout (backendTimeout cfg)))
              (log_action MainT DialFail s))"
  | c where "mpc s = P_Dial c" "r = Err" "\<not> hadSuccessfulConnection s"
      "\<not> now s - startTime s > backendTimeout cfg"
      "s' = (log_action MainT (Sleep (backoff_delay (next_attempt (attempt s))))
              (log_action MainT (Print (MsgRetry (backoff_delay (next_attempt (attempt s)))))
                (log_action MainT DialFail s)))
            \<lparr> attempt := next_attempt (attempt s),
              mpc := P_Sleep c (now s + backoff_delay (next_attempt (attempt s))) \<rparr>"
  | c w where "mpc s = P_Sleep c w" "r = Go" "now s \<ge> w" "s' = s\<lparr> mpc := P_Dial c \<rparr>"
proof (cases "mpc s")
  case M_CheckEnv
  then show ?thesis using assms that(1,2)
    by (cases r) (auto simp: main_step_def split: if_splits)
next
  case M_NewCtrl
  then show ?thesis using assms that(3,4)
    by (cases r) (auto simp: main_step_def)
next
  case M_SpawnSup
  then show ?thesis using assms that(5,6)
    by (cases r) (auto simp: main_step_def split: if_splits)
next
  case M_StartUnit
  then show ?thesis using assms that(7,8)
    by (cases r) (auto simp: main_step_def)
next
  case P_Listen
  then show ?thesis using assms that(9,10)
    by (cases r) (auto simp: main_step_def)
next
  case P_Send
  then show ?thesis using assms that(11)
    by (cases r; cases "supervisor s") (auto simp: main_step_def send_activity_def)
next
  case P_Accept
  then show ?thesis using assms that(12,13)
    by (cases r) (auto simp: main_step_def)
next
  case (P_Dial c)
  then show ?thesis using assms that(14,15,16,17)
    by (cases r) (auto simp: main_step_def dial_failed_def log_action_def Let_def
                       split: if_splits)
next
  case (P_Sleep c w)
  then show ?thesis using assms that(18)
    by (cases r) (auto simp: main_step_def split: if_splits)
qed

lemma sup_step_elim [consumes 1, case_names StopOk StopErr]:
  assumes "sup_step cfg s r = Some s'"
  obtains
    t0 where "supervisor s = S_Select t0" "now s - t0 \<ge> timeout cfg" "r = Ok"
      "s' = os_Exit SupT 0 (log_action SupT (StopUnit (targetUnit cfg)) s)"
  | t0 where "supervisor s = S_Select t0" "now s - t0 \<ge> timeout cfg" "r = Err"
      "s' = log_Fatal SupT MsgError (log_action SupT (StopUnit (targetUnit cfg)) s)"
  using assms unfolding sup_step_def
  by (cases "supervisor s"; cases r) (auto split: if_splits)

lemma fwd_step_elim [consumes 1, case_names ReadOk ReadErr Send Write]:
  assumes "fwd_step cfg s i r = Some s'"
  obtains
    bs where "i < length (fwds s)" "fpc (fwds s ! i) = F_Read" "r = ReadRes bs False"
      "length bs \<le> buffer_size"
      "s' = set_fpc i (F_Send bs) (log_action (FwdT i) (ReadOk bs) s)"
  | bs where "i < length (fwds s)" "fpc (fwds s ! i) = F_Read" "r = ReadRes bs True"
      "length bs \<le> buffer_size"
      "s' = set_fpc i F_Done (log_action (FwdT i) Return (log_action (FwdT i) ReadErr s))"
  | bs t0 where "i < length (fwds s)" "fpc (fwds s ! i) = F_Send bs" "r = Go"
      "supervisor s = S_Select t0"
      "s' = set_fpc i (F_Write bs)
              ((log_action (FwdT i) Signal s)\<lparr> supervisor := S_Select (now s) \<rparr>)"
  | bs where "i < length (fwds s)" "fpc (fwds s ! i) = F_Write bs" "r = Ok \<or> r = Err"
      "s' = set_fpc i F_Read (log_action (FwdT i) (Write (to_conn (fwds s ! i)) bs) s)"
proof -
  have len: "i < length (fwds s)"
    using assms by (simp add: fwd_step_def split: if_splits)
  show ?thesis
  proof (cases "fpc (fwds s ! i)")
    case F_Read
    then show ?thesis using assms len that(1,2)
      by (cases r) (auto simp: fwd_step_def split: if_splits)
  next
    case (F_Send bs)
    then show ?thesis using assms len that(3)
      by (cases r; cases "supervisor s") (auto simp: fwd_step_def send_activity_def)
  next
    case (F_Write bs)
    then show ?thesis using assms len that(4)
      by (cases r) (auto simp: fwd_step_def)
  next
    case F_Done
    then show ?thesis using assms len by (simp add: fwd_step_def)
  qed
qed

section \<open>The disabled supervisor (idle timeout zero)\<close>

lemma disabled_inv_main:
  assumes "timeout cfg = 0" "disabled_inv s" "main_step cfg s r = Some s'"
  shows "disabled_inv s'"
  using assms unfolding disabled_inv_def main_step_def
  by (cases "mpc s"; cases r; auto simp: effect_defs split: if_splits)

lemma disabled_inv_step:
  assumes "timeout cfg = 0" "disabled_inv s" "step cfg s e = Some s'"
  shows "disabled_inv s'"
  using assms(3)
proof (cases rule: step_cases)
  case (Tick d)
  then show ?thesis using assms(2) by (simp add: disabled_inv_def)
next
  case (Main r)
  then show ?thesis using assms disabled_inv_main by blast
next
  case (Sup r)
  then show ?thesis using assms(2) by (simp add: disabled_inv_def sup_step_def)
next
  case (Fwd i r)
  then show ?thesis using assms(2) by (simp add: disabled_inv_def fwd_step_def)
qed

lemma disabled_inv_run:
  assumes "timeout cfg = 0" "run cfg init es = Some s"
  shows "disabled_inv s"
proof (rule run_invariant [OF assms(2)])
  show "disabled_inv init" by (simp add: disabled_inv_def init_def)
next
  fix s e s' assume "disabled_inv s" "step cfg s e = Some s'"
  then show "disabled_inv s'" using assms(1) disabled_inv_step by blast
qed

text \<open>
  Claim C1. With idle timeout zero the goroutine of \<open>terminateWithoutActivity\<close> is never
  started, so the channel has no receiver. The claim says that the sends still complete
  and the proxy accepts and forwards. In the code they do not: in every execution with
  \<open>timeout = 0\<close> no activity send can complete; once the main goroutine stands at
  the send of line 101 the only thing that still happens is that time passes; no
  connection is ever accepted, no signal is ever delivered and no forwarder is ever
  started.
\<close>

theorem C1_send_blocks_without_supervisor:
  assumes "timeout cfg = 0" and "run cfg init es = Some s"
  shows "send_activity t s = None \<and>
         (mpc s = P_Send \<longrightarrow>
            (\<forall>e s'. step cfg s e = Some s' \<longrightarrow>
               (\<exists>d. e = Tick d \<and> s' = s\<lparr> now := now s + d \<rparr>))) \<and>
         (\<forall>c. Accept c \<notin> set (acts (trace s))) \<and>
         Signal \<notin> set (acts (trace s)) \<and> fwds s = []"
proof -
  have inv: "disabled_inv s" using assms by (rule disabled_inv_run)
  then have none: "supervisor s = S_None" and nofwd: "fwds s = []"
    by (simp_all add: disabled_inv_def)
  have a: "send_activity t s = None" using none by (simp add: send_activity_def)
  have b: "\<exists>d. e = Tick d \<and> s' = s\<lparr> now := now s + d \<rparr>"
    if "mpc s = P_Send" "step cfg s e = Some s'" for e s'
    using that(2)
  proof (cases rule: step_cases)
    case (Tick d)
    then show ?thesis by simp
  next
    case (Main r)
    then show ?thesis using that(1) none
      by (cases r) (simp_all add: main_step_def send_activity_def)
  next
    case (Sup r)
    then show ?thesis using none by (simp add: sup_step_def)
  next
    case (Fwd i r)
    then show ?thesis using nofwd by (simp add: fwd_step_def)
  qed
  show ?thesis using a b inv by (simp add: disabled_inv_def)
qed

theorem C1_send_blocks_without_supervisor_witness:
  "timeout (example_config 0 (30 * Second)) = 0 \<and>
   mpc (the (run (example_config 0 (30 * Second)) init startup)) = P_Send \<and>
   exited (the (run (example_config 0 (30 * Second)) init startup)) = None \<and>
   step (example_config 0 (30 * Second))
     (the (run (example_config 0 (30 * Second)) init startup)) (MainE Go) = None \<and>
   send_activity MainT (the (run (example_config 0 (30 * Second)) init startup)) = None"
proof -
  let ?cfg = "example_config 0 (30 * Second)"
  let ?s = "the (run ?cfg init startup)"
  have t: "timeout ?cfg = 0" by code_simp
  have r: "run ?cfg init startup = Some ?s" by code_simp
  have p: "mpc ?s = P_Send" by code_simp
  have x: "exited ?s = None" by code_simp
  have n: "step ?cfg ?s (MainE Go) = None" by code_simp
  from C1_send_blocks_without_supervisor [OF t r, of MainT]
  have "send_activity MainT ?s = None" by blast
  then show ?thesis using t p x n by blast
qed

section \<open>The dial loop\<close>

lemma dial_succeeded_simps [simp]:
  "dial_succeeded [] = False"
  "dial_succeeded (tr @ tr') = (dial_succeeded tr \<or> dial_succeeded tr')"
  "dial_succeeded ((t, i, a) # tr) = (is_dial_ok a \<or> dial_succeeded tr)"
  by (simp_all add: dial_succeeded_def)

lemma consecutive_failures_simps [simp]:
  "consecutive_failures [] = 0"
  "consecutive_failures (tr @ tr') = foldl cf_step (consecutive_failures tr) (acts tr')"
  by (simp_all add: consecutive_failures_def)

lemma find_app:
  "find P (xs @ ys) = (case find P xs of None \<Rightarrow> find P ys | Some x \<Rightarrow> Some x)"
  by (induction xs) auto

lemma time_of_first_simps [simp]:
  "time_of_first P [] = None"
  "time_of_first P (tr @ tr') =
     (case time_of_first P tr of None \<Rightarrow> time_of_first P tr' | Some t \<Rightarrow> Some t)"
  "time_of_first P ((t, i, a) # tr) = (if P a then Some t else time_of_first P tr)"
  by (simp_all add: time_of_first_def find_app split: option.splits)

lemmas obs_defs = starting_def dialing_def is_dial_ok_def cf_step_def proxy_start_def
lemmas dial_inv_defs = dial_inv_def had_inv_def start_inv_def attempt_inv_def

lemma dial_inv_main:
  assumes "main_step cfg s r = Some s'" "dial_inv s"
  shows "dial_inv s'"
  using assms
  by (cases rule: main_step_elim)
     (auto simp: dial_inv_defs effect_defs obs_defs next_attempt_def maxRetries_def)

lemma dial_inv_sup:
  assumes "sup_step cfg s r = Some s'" "dial_inv s"
  shows "dial_inv s'"
  using assms
  by (cases rule: sup_step_elim) (auto simp: dial_inv_defs effect_defs obs_defs)

lemma dial_inv_fwd:
  assumes "fwd_step cfg s i r = Some s'" "dial_inv s"
  shows "dial_inv s'"
  using assms
  by (cases rule: fwd_step_elim) (auto simp: dial_inv_defs effect_defs obs_defs)

lemma dial_inv_step:
  assumes "dial_inv s" "step cfg s e = Some s'"
  shows "dial_inv s'"
  using assms(2)
proof (cases rule: step_cases)
  case (Tick d)
  then show ?thesis using assms(1) by (simp add: dial_inv_defs obs_defs)
next
  case (Main r)
  then show ?thesis using assms(1) dial_inv_main by blast
next
  case (Sup r)
  then show ?thesis using assms(1) dial_inv_sup by blast
next
  case (Fwd i r)
  then show ?thesis using assms(1) dial_inv_fwd by blast
qed

lemma dial_inv_run:
  assumes "run cfg init es = Some s"
  shows "dial_inv s"
proof (rule run_invariant [OF assms])
  show "dial_inv init" by (simp add: dial_inv_defs init_def obs_defs)
qed (rule dial_inv_step)

lemma next_attempt_le: "next_attempt a \<le> 9"
  by (simp add: next_attempt_def maxRetries_def)

lemma next_attempt_min: "next_attempt (min k 9) = min (Suc k) 9"
  by (simp add: next_attempt_def maxRetries_def min_def)

lemma backoff_delay_bounds:
  "0 < backoff_delay (next_attempt a)" "backoff_delay (next_attempt a) \<le> 256 * Second"
  "256 * Second < 2 ^ 63"
proof -
  have "(2::int) ^ next_attempt a \<le> 2 ^ 9"
    by (rule power_increasing) (simp_all add: next_attempt_le)
  then show "backoff_delay (next_attempt a) \<le> 256 * Second"
    by (simp add: backoff_delay_def Second_def Millisecond_def)
  show "0 < backoff_delay (next_attempt a)"
    by (simp add: backoff_delay_def Millisecond_def)
  show "256 * Second < 2 ^ 63"
    by (simp add: Second_def Millisecond_def)
qed

text \<open>
  Claim C2. Once some dial of the process has succeeded, a failed dial for any later
  accepted connection ends the process at once with exit code 0: the step appends the
  failure, the message and \<open>Exit 0\<close> to the trace and nothing else (no sleep, no
  retry), whatever the clock and the attempt counter are.
\<close>

theorem C2_regression_exits_at_once:
  assumes "run cfg init es = Some s" and "dial_succeeded (trace s)"
    and "mpc s = P_Dial c" and "exited s = None"
  shows "step cfg s (MainE Err) =
           Some (s\<lparr> trace := trace s @ [(now s, MainT, DialFail),
                                         (now s, MainT, Print MsgRegression),
                                         (now s, MainT, Exit 0)],
                     exited := Some 0 \<rparr>)"
proof -
  have "dial_inv s" using assms(1) by (rule dial_inv_run)
  then have "hadSuccessfulConnection s" using assms(2) by (simp add: dial_inv_defs)
  then show ?thesis using assms(3,4)
    by (simp add: step_def main_step_def effect_defs)
qed


theorem C2_regression_exits_at_once_witness:
  "dial_succeeded (trace (the (run (example_config (3600 * Second) (30 * Second)) init
      second_client))) \<and>
   mpc (the (run (example_config (3600 * Second) (30 * Second)) init second_client))
     = P_Dial 3 \<and>
   map_option exited
     (step (example_config (3600 * Second) (30 * Second))
        (the (run (example_config (3600 * Second) (30 * Second)) init second_client))
        (MainE Err)) = Some (Some 0)"
proof -
  let ?cfg = "example_config (3600 * Second) (30 * Second)"
  let ?s = "the (run ?cfg init second_client)"
  have r: "run ?cfg init second_client = Some ?s" by code_simp
  have d: "dial_succeeded (trace ?s)" by code_simp
  have p: "mpc ?s = P_Dial 3" by code_simp
  have x: "exited ?s = None" by code_simp
  from C2_regression_exits_at_once [OF r d p x] d p show ?thesis by simp
qed

text \<open>
  Claim C3, as amended. The claim puts the cap at the tenth failure, with delay
  \<open>500ms * 2^10\<close>. The code caps the exponent at \<open>maxRetries - 1 = 9\<close>: before any
  dial has succeeded and within the backend timeout, the \<open>k\<close>-th consecutive failed dial
  of a connection attempt is followed by a sleep of \<open>500ms * 2^(min k 9)\<close>, for every
  \<open>k \<ge> 1\<close>, and after the sleep the dial is tried again, whatever \<open>k\<close> is.
\<close>

theorem C3_backoff_delay_capped_at_nine:
  assumes "run cfg init es = Some s" and "mpc s = P_Dial c" and "exited s = None"
    and "\<not> dial_succeeded (trace s)" and "now s - startTime s \<le> backendTimeout cfg"
  shows "\<exists>s' k d. step cfg s (MainE Err) = Some s' \<and>
           k = consecutive_failures (trace s) + 1 \<and>
           k = consecutive_failures (trace s') \<and>
           d = 500 * Millisecond * 2 ^ (min k 9) \<and>
           trace s' = trace s @ [(now s, MainT, DialFail), (now s, MainT, Print (MsgRetry d)),
                                 (now s, MainT, Sleep d)] \<and>
           exited s' = None \<and> mpc s' = P_Sleep c (now s + d) \<and>
           run cfg s' [Tick d, MainE Go] = Some (s'\<lparr> now := now s + d, mpc := P_Dial c \<rparr>)"
proof -
  have inv: "dial_inv s" using assms(1) by (rule dial_inv_run)
  then have nohad: "\<not> hadSuccessfulConnection s" using assms(4) by (simp add: dial_inv_defs)
  have att: "attempt s = min (consecutive_failures (trace s)) 9"
    using inv assms(2,3) by (simp add: dial_inv_defs dialing_def)
  define k where "k = consecutive_failures (trace s) + 1"
  define d where "d = 500 * Millisecond * 2 ^ (min k 9)"
  have na: "next_attempt (attempt s) = min k 9"
    by (simp add: att next_attempt_min k_def)
  have bd: "backoff_delay (min k 9) = d"
    by (simp add: backoff_delay_def d_def)
  have dpos: "0 \<le> d" by (simp add: d_def Millisecond_def)
  define s' where "s' = s\<lparr> trace := trace s @ [(now s, MainT, DialFail),
      (now s, MainT, Print (MsgRetry d)), (now s, MainT, Sleep d)],
      attempt := min k 9, mpc := P_Sleep c (now s + d) \<rparr>"
  have st: "step cfg s (MainE Err) = Some s'"
    using assms(2,3,5) nohad
    by (simp add: step_def main_step_def effect_defs Let_def na bd s'_def)
  have kk: "k = consecutive_failures (trace s')"
    by (simp add: s'_def k_def cf_step_def)
  have rr: "run cfg s' [Tick d, MainE Go] = Some (s'\<lparr> now := now s + d, mpc := P_Dial c \<rparr>)"
    using assms(3) dpos by (simp add: step_def main_step_def s'_def)
  have tr: "trace s' = trace s @ [(now s, MainT, DialFail), (now s, MainT, Print (MsgRetry d)),
                                  (now s, MainT, Sleep d)]"
    by (simp add: s'_def)
  have ex: "exited s' = None" using assms(3) by (simp add: s'_def)
  have pc: "mpc s' = P_Sleep c (now s + d)" by (simp add: s'_def)
  show ?thesis
    by (intro exI [of _ s'] exI [of _ k] exI [of _ d] conjI)
       (fact st k_def kk d_def tr ex pc rr)+
qed

theorem C3_backoff_delay_capped_at_nine_witness:
  "\<not> dial_succeeded (trace (the (run (example_config (3600 * Second) (3600 * Second)) init
      (nine_failures @ failed_round (256 * Second))))) \<and>
   consecutive_failures (trace (the (run (example_config (3600 * Second) (3600 * Second)) init
      (nine_failures @ failed_round (256 * Second))))) + 1 = 11 \<and>
   (\<exists>s'. step (example_config (3600 * Second) (3600 * Second))
        (the (run (example_config (3600 * Second) (3600 * Second)) init
           (nine_failures @ failed_round (256 * Second)))) (MainE Err) = Some s' \<and>
      exited s' = None \<and> snd (snd (last (trace s'))) = Sleep (256 * Second))"
proof -
  let ?cfg = "example_config (3600 * Second) (3600 * Second)"
  let ?es = "nine_failures @ failed_round (256 * Second)"
  let ?s = "the (run ?cfg init ?es)"
  have r: "run ?cfg init ?es = Some ?s" by code_simp
  have p: "mpc ?s = P_Dial 1" by code_simp
  have x: "exited ?s = None" by code_simp
  have d: "\<not> dial_succeeded (trace ?s)" by code_simp
  have t: "now ?s - startTime ?s \<le> backendTimeout ?cfg" by code_simp
  have k: "consecutive_failures (trace ?s) + 1 = 11" by code_simp
  from C3_backoff_delay_capped_at_nine [OF r p x d t] k
  have "\<exists>s'. step ?cfg ?s (MainE Err) = Some s' \<and> exited s' = None \<and>
          snd (snd (last (trace s'))) = Sleep (256 * Second)"
    by (auto simp add: Second_def Millisecond_def simp del: run.simps)
  then show ?thesis using d k by blast
qed

text \<open>
  Claim C3 as stated fails at the tenth consecutive failure: the sleep that follows it
  is \<open>500ms * 2^9\<close> (256 s), not \<open>500ms * 2^10\<close>.
\<close>

theorem C3_tenth_failure_counterexample:
  "consecutive_failures (trace (the (run (example_config (3600 * Second) (3600 * Second)) init
      (nine_failures @ [MainE Err])))) = 10 \<and>
   snd (snd (last (trace (the (run (example_config (3600 * Second) (3600 * Second)) init
      (nine_failures @ [MainE Err])))))) = Sleep (500 * Millisecond * 2 ^ 9) \<and>
   snd (snd (last (trace (the (run (example_config (3600 * Second) (3600 * Second)) init
      (nine_failures @ [MainE Err])))))) \<noteq> Sleep (500 * Millisecond * 2 ^ 10)"
  by code_simp

text \<open>
  Claim C4, as amended. The claim measures the elapsed time from the first dial attempt
  of the process. The code measures it from \<open>startTime\<close>, the clock reading taken when
  \<open>startTCPProxy\<close> has obtained its listener, before the first accept. Before any dial
  has succeeded, a failed dial ends the process (with exit code 0) exactly when the time
  elapsed since that reading exceeds the backend timeout; otherwise the loop sleeps and
  dials again.
\<close>

theorem C4_gives_up_after_timeout_since_proxy_start:
  assumes "run cfg init es = Some s" and "mpc s = P_Dial c" and "exited s = None"
    and "\<not> dial_succeeded (trace s)"
  shows "\<exists>s' t0. step cfg s (MainE Err) = Some s' \<and> proxy_start (trace s) = Some t0 \<and>
           (exited s' = Some 0 \<longleftrightarrow> now s - t0 > backendTimeout cfg) \<and>
           (exited s' = None \<longleftrightarrow> \<not> now s - t0 > backendTimeout cfg) \<and>
           (exited s' = None \<longrightarrow>
              (\<exists>d. 0 < d \<and> mpc s' = P_Sleep c (now s + d) \<and>
                   run cfg s' [Tick d, MainE Go]
                     = Some (s'\<lparr> now := now s + d, mpc := P_Dial c \<rparr>)))"
proof -
  have inv: "dial_inv s" using assms(1) by (rule dial_inv_run)
  then have nohad: "\<not> hadSuccessfulConnection s" using assms(4) by (simp add: dial_inv_defs)
  have ps: "proxy_start (trace s) = Some (startTime s)"
    using inv assms(2) by (simp add: dial_inv_defs starting_def)
  show ?thesis
  proof (cases "now s - startTime s > backendTimeout cfg")
    case True
    then have "step cfg s (MainE Err) =
        Some (s\<lparr> trace := trace s @ [(now s, MainT, DialFail),
                     (now s, MainT, Print (MsgBackendTimeout (backendTimeout cfg))),
                     (now s, MainT, Exit 0)], exited := Some 0 \<rparr>)"
      using assms(2,3) nohad by (simp add: step_def main_step_def effect_defs)
    then show ?thesis using ps True by simp
  next
    case False
    define d where "d = backoff_delay (next_attempt (attempt s))"
    define s' where "s' = s\<lparr> trace := trace s @ [(now s, MainT, DialFail),
      (now s, MainT, Print (MsgRetry d)), (now s, MainT, Sleep d)],
      attempt := next_attempt (attempt s), mpc := P_Sleep c (now s + d) \<rparr>"
    have dpos: "0 < d" by (simp add: d_def backoff_delay_bounds)
    have st: "step cfg s (MainE Err) = Some s'"
      using assms(2,3) nohad False
      by (simp add: step_def main_step_def effect_defs Let_def s'_def d_def)
    have rr: "run cfg s' [Tick d, MainE Go] = Some (s'\<lparr> now := now s + d, mpc := P_Dial c \<rparr>)"
      using assms(3) dpos by (simp add: step_def main_step_def s'_def)
    have ex: "exited s' = None" using assms(3) by (simp add: s'_def)
    have pc: "mpc s' = P_Sleep c (now s + d)" by (simp add: s'_def)
    show ?thesis
      using st ps False ex pc rr dpos by auto
  qed
qed

theorem C4_gives_up_after_timeout_since_proxy_start_witness:
  "\<not> dial_succeeded (trace (the (run (example_config (3600 * Second) (30 * Second)) init
      first_client))) \<and>
   mpc (the (run (example_config (3600 * Second) (30 * Second)) init first_client))
     = P_Dial 1 \<and>
   (\<exists>s'. step (example_config (3600 * Second) (30 * Second))
           (the (run (example_config (3600 * Second) (30 * Second)) init first_client))
           (MainE Err) = Some s' \<and> exited s' = None)"
proof -
  let ?cfg = "example_config (3600 * Second) (30 * Second)"
  let ?s = "the (run ?cfg init first_client)"
  have r: "run ?cfg init first_client = Some ?s" by code_simp
  have p: "mpc ?s = P_Dial 1" by code_simp
  have x: "exited ?s = None" by code_simp
  have d: "\<not> dial_succeeded (trace ?s)" by code_simp
  have t: "\<not> now ?s - 0 > backendTimeout ?cfg" by code_simp
  have ps: "proxy_start (trace ?s) = Some 0" by code_simp
  from C4_gives_up_after_timeout_since_proxy_start [OF r p x d] ps t
  have "\<exists>s'. step ?cfg ?s (MainE Err) = Some s' \<and> exited s' = None"
    by (auto simp del: run.simps)
  then show ?thesis using d p by blast
qed

text \<open>
  Claim C4 as stated fails when the first client arrives late: with a backend timeout of
  30 s and the first connection accepted 40 s after the proxy started, the first failed
  dial ends the process although no time has passed since the first dial attempt.
\<close>

theorem C4_late_first_client_counterexample:
  "\<not> dial_succeeded (trace (the (run (example_config (3600 * Second) (30 * Second)) init
      (late_first_client @ [MainE Err])))) \<and>
   exited (the (run (example_config (3600 * Second) (30 * Second)) init
      (late_first_client @ [MainE Err]))) = Some 0 \<and>
   first_accept (trace (the (run (example_config (3600 * Second) (30 * Second)) init
      (late_first_client @ [MainE Err])))) = Some (40 * Second) \<and>
   first_dial (trace (the (run (example_config (3600 * Second) (30 * Second)) init
      (late_first_client @ [MainE Err])))) = Some (40 * Second) \<and>
   now (the (run (example_config (3600 * Second) (30 * Second)) init
      (late_first_client @ [MainE Err]))) = 40 * Second \<and>
   \<not> (now (the (run (example_config (3600 * Second) (30 * Second)) init
      (late_first_client @ [MainE Err]))) - 40 * Second
        > backendTimeout (example_config (3600 * Second) (30 * Second)))"
  by code_simp

section \<open>The idle supervisor and the unit controller\<close>

lemma starts_simps [simp]:
  "starts [] = []"
  "starts (tr @ tr') = starts tr @ starts tr'"
  "starts ((t, i, a) # tr) = (if is_start a then (t, i, a) # starts tr else starts tr)"
  by (simp_all add: starts_def)

lemma stops_simps [simp]:
  "stops [] = []"
  "stops (tr @ tr') = stops tr @ stops tr'"
  "stops ((t, i, a) # tr) = (if is_stop a then (t, i, a) # stops tr else stops tr)"
  by (simp_all add: stops_def)

lemma arm_times_simps [simp]:
  "arm_times [] = []"
  "arm_times (tr @ tr') = arm_times tr @ arm_times tr'"
  "arm_times ((t, i, a) # tr) =
     (if a = SpawnSupervisor \<or> a = Signal then t # arm_times tr else arm_times tr)"
  by (simp_all add: arm_times_def)

lemma gaps_lt_snoc:
  "ts \<noteq> [] \<Longrightarrow> gaps_lt d (ts @ [n]) \<longleftrightarrow> gaps_lt d ts \<and> n - last ts < d"
  by (induction d ts rule: gaps_lt.induct) auto

lemmas kind_defs = is_start_def is_stop_def is_accept_def

lemma sup_inv_main:
  assumes "main_step cfg s r = Some s'" "sup_inv cfg s" "exited s = None"
  shows "sup_inv cfg s'"
  using assms
  by (cases rule: main_step_elim) (auto simp: sup_inv_def effect_defs kind_defs split: sup_pc.splits)

lemma sup_inv_sup:
  assumes "sup_step cfg s r = Some s'" "sup_inv cfg s" "exited s = None"
  shows "sup_inv cfg s'"
  using assms
  by (cases rule: sup_step_elim) (auto simp: sup_inv_def effect_defs kind_defs)

lemma sup_inv_fwd:
  assumes "fwd_step cfg s i r = Some s'" "sup_inv cfg s" "exited s = None"
  shows "sup_inv cfg s'"
  using assms
  by (cases rule: fwd_step_elim) (auto simp: sup_inv_def effect_defs kind_defs split: sup_pc.splits)

lemma sup_inv_step:
  assumes "sup_inv cfg s" "step cfg s e = Some s'"
  shows "sup_inv cfg s'"
  using assms(2)
proof (cases rule: step_cases)
  case (Tick d)
  then show ?thesis using assms(1) by (simp add: sup_inv_def split: sup_pc.splits)
next
  case (Main r)
  then show ?thesis using assms(1) sup_inv_main by blast
next
  case (Sup r)
  then show ?thesis using assms(1) sup_inv_sup by blast
next
  case (Fwd i r)
  then show ?thesis using assms(1) sup_inv_fwd by blast
qed

lemma sup_inv_run:
  assumes "run cfg init es = Some s"
  shows "sup_inv cfg s"
proof (rule run_invariant [OF assms])
  show "sup_inv cfg init" by (simp add: sup_inv_def init_def)
qed (rule sup_inv_step)


lemma length_starts: "length (filter is_start (acts tr)) = length (starts tr)"
  by (induction tr) (auto simp: acts_def starts_def)

lemma accepts_after_start_append [simp]:
  "accepts_after_start n (xs @ ys) \<longleftrightarrow>
     accepts_after_start n xs \<and> accepts_after_start (n + length (filter is_start xs)) ys"
  by (induction xs arbitrary: n) auto

lemma accepts_after_start_split:
  assumes "accepts_after_start 0 (acts tr)" "tr = pre @ e # post" "is_accept (snd (snd e))"
  shows "length (starts pre) = 1"
  using assms by (cases e) (simp add: length_starts)

lemma unit_inv_main:
  assumes "main_step cfg s r = Some s'" "unit_inv s" "exited s = None"
  shows "unit_inv s'"
  using assms
  by (cases rule: main_step_elim)
     (auto simp: unit_inv_def effect_defs kind_defs length_starts)

lemma unit_inv_sup:
  assumes "sup_step cfg s r = Some s'" "unit_inv s" "exited s = None"
  shows "unit_inv s'"
  using assms
  by (cases rule: sup_step_elim)
     (auto simp: unit_inv_def effect_defs kind_defs length_starts split: main_pc.splits)

lemma unit_inv_fwd:
  assumes "fwd_step cfg s i r = Some s'" "unit_inv s" "exited s = None"
  shows "unit_inv s'"
  using assms
  by (cases rule: fwd_step_elim)
     (auto simp: unit_inv_def effect_defs kind_defs length_starts split: main_pc.splits)

lemma unit_inv_step:
  assumes "unit_inv s" "step cfg s e = Some s'"
  shows "unit_inv s'"
  using assms(2)
proof (cases rule: step_cases)
  case (Tick d)
  then show ?thesis using assms(1) by (simp add: unit_inv_def split: main_pc.splits)
next
  case (Main r)
  then show ?thesis using assms(1) unit_inv_main by blast
next
  case (Sup r)
  then show ?thesis using assms(1) unit_inv_sup by blast
next
  case (Fwd i r)
  then show ?thesis using assms(1) unit_inv_fwd by blast
qed

lemma unit_inv_run:
  assumes "run cfg init es = Some s"
  shows "unit_inv s"
proof (rule run_invariant [OF assms])
  show "unit_inv init" by (simp add: unit_inv_def init_def)
qed (rule unit_inv_step)

lemma stops_imp_gap:
  assumes "sup_inv cfg s" "stops (trace s) \<noteq> []"
  shows "\<not> gaps_lt (timeout cfg) (arm_times (trace s) @ [now s])"
  using assms by (auto simp: sup_inv_def gaps_lt_snoc split: if_splits)

text \<open>
  Claim C5, as amended. The supervisor re-arms its timer when it is started and at every
  activity signal it receives (\<open>arm_times\<close>). While all gaps between these times, and
  the time since the last of them, are below the idle timeout, \<open>stopSystemdUnit\<close> has
  not been called. When the supervisor is armed and a whole idle timeout has passed since
  the last of them, its timer branch can run: it calls stop exactly once and the process
  ends, with exit code 0 when the stop call returns without error and, through
  \<open>log.Fatal\<close>, with exit code 1 when the stop call fails.
\<close>

theorem C5_idle_supervisor:
  assumes "run cfg init es = Some s"
  shows "(gaps_lt (timeout cfg) (arm_times (trace s) @ [now s]) \<longrightarrow> stops (trace s) = []) \<and>
         (supervisor s \<noteq> S_None \<and> exited s = None \<and>
          timeout cfg \<le> now s - last (arm_times (trace s)) \<longrightarrow>
            stops (trace s) = [] \<and>
            step cfg s (SupE Ok) =
              Some (s\<lparr> trace := trace s @ [(now s, SupT, StopUnit (targetUnit cfg)),
                                            (now s, SupT, Exit 0)],
                        exited := Some 0 \<rparr>) \<and>
            step cfg s (SupE Err) =
              Some (s\<lparr> trace := trace s @ [(now s, SupT, StopUnit (targetUnit cfg)),
                                            (now s, SupT, Print MsgError),
                                            (now s, SupT, Exit 1)],
                        exited := Some 1 \<rparr>))"
proof -
  have inv: "sup_inv cfg s" using assms by (rule sup_inv_run)
  have one: "gaps_lt (timeout cfg) (arm_times (trace s) @ [now s]) \<longrightarrow> stops (trace s) = []"
    using stops_imp_gap [OF inv] by blast
  have two: "stops (trace s) = [] \<and>
      step cfg s (SupE Ok) =
        Some (s\<lparr> trace := trace s @ [(now s, SupT, StopUnit (targetUnit cfg)),
                                      (now s, SupT, Exit 0)], exited := Some 0 \<rparr>) \<and>
      step cfg s (SupE Err) =
        Some (s\<lparr> trace := trace s @ [(now s, SupT, StopUnit (targetUnit cfg)),
                                      (now s, SupT, Print MsgError),
                                      (now s, SupT, Exit 1)], exited := Some 1 \<rparr>)"
    if "supervisor s \<noteq> S_None" "exited s = None"
       "timeout cfg \<le> now s - last (arm_times (trace s))"
    using that inv
    by (cases "supervisor s") (auto simp: sup_inv_def step_def sup_step_def effect_defs)
  show ?thesis using one two by blast
qed


theorem C5_idle_supervisor_witness:
  "gaps_lt (timeout (example_config (2 * Second) (30 * Second)))
     (arm_times (trace (the (run (example_config (2 * Second) (30 * Second)) init
        active_second))) @
      [now (the (run (example_config (2 * Second) (30 * Second)) init active_second))]) \<and>
   stops (trace (the (run (example_config (2 * Second) (30 * Second)) init active_second)))
     = [] \<and>
   timeout (example_config (2 * Second) (30 * Second))
     \<le> now (the (run (example_config (2 * Second) (30 * Second)) init idle_period))
        - last (arm_times (trace (the (run (example_config (2 * Second) (30 * Second)) init
            idle_period)))) \<and>
   map_option exited
     (step (example_config (2 * Second) (30 * Second))
        (the (run (example_config (2 * Second) (30 * Second)) init idle_period)) (SupE Ok))
     = Some (Some 0)"
proof -
  let ?cfg = "example_config (2 * Second) (30 * Second)"
  let ?a = "the (run ?cfg init active_second)"
  let ?i = "the (run ?cfg init idle_period)"
  have ra: "run ?cfg init active_second = Some ?a" by code_simp
  have ri: "run ?cfg init idle_period = Some ?i" by code_simp
  have g: "gaps_lt (timeout ?cfg) (arm_times (trace ?a) @ [now ?a])" by code_simp
  have armed: "supervisor ?i \<noteq> S_None" by code_simp
  have x: "exited ?i = None" by code_simp
  have t: "timeout ?cfg \<le> now ?i - last (arm_times (trace ?i))" by code_simp
  from C5_idle_supervisor [OF ra] g have "stops (trace ?a) = []" by blast
  moreover from C5_idle_supervisor [OF ri] armed x t
  have "map_option exited (step ?cfg ?i (SupE Ok)) = Some (Some 0)"
    by (simp del: run.simps)
  ultimately show ?thesis using g t by blast
qed

text \<open>
  Claim C5 as stated fails when the stop call returns an error: no signal arrives for
  the idle timeout of 2 s, stop is called once, and the process ends with exit code 1.
\<close>

theorem C5_failed_stop_counterexample:
  "arm_times (trace (the (run (example_config (2 * Second) (30 * Second)) init
      (idle_period @ [SupE Err])))) = [0] \<and>
   now (the (run (example_config (2 * Second) (30 * Second)) init
      (idle_period @ [SupE Err]))) = 2 * Second \<and>
   timeout (example_config (2 * Second) (30 * Second)) = 2 * Second \<and>
   length (stops (trace (the (run (example_config (2 * Second) (30 * Second)) init
      (idle_period @ [SupE Err]))))) = 1 \<and>
   exited (the (run (example_config (2 * Second) (30 * Second)) init
      (idle_period @ [SupE Err]))) = Some 1 \<and>
   exited (the (run (example_config (2 * Second) (30 * Second)) init
      (idle_period @ [SupE Err]))) \<noteq> Some 0"
  by code_simp

text \<open>
  Claim C6, as amended. A step that ends the process does so with exit code 0 when it is
  the idle timeout firing with the stop call returning without error, or a failed dial
  (regression or backend timeout exceeded); the failed check of the activation
  environment ends it through \<open>log.Fatal\<close>, with exit code 1. No other exit code occurs.
\<close>

theorem C6_exit_codes:
  assumes "step cfg s e = Some s'" and "exited s' = Some code"
  shows "(e = SupE Ok \<longrightarrow> code = 0) \<and>
         (e = MainE Err \<and> dialing s \<longrightarrow> code = 0) \<and>
         (e = MainE Go \<and> mpc s = M_CheckEnv \<longrightarrow>
            code = 1 \<and> env_LISTEN_PID cfg \<noteq> itoa_pid cfg) \<and>
         (code = 0 \<or> code = 1)"
  using assms(1)
proof (cases rule: step_cases)
  case (Tick d)
  then show ?thesis using assms(2) by simp
next
  case (Main r)
  from Main(2) show ?thesis using assms(2) Main(1,3)
    by (cases rule: main_step_elim) (auto simp: effect_defs dialing_def)
next
  case (Sup r)
  from Sup(2) show ?thesis using assms(2) Sup(1,3)
    by (cases rule: sup_step_elim) (auto simp: effect_defs)
next
  case (Fwd i r)
  from Fwd(2) show ?thesis using assms(2) Fwd(1,3)
    by (cases rule: fwd_step_elim) (auto simp: effect_defs)
qed

theorem C6_exit_codes_witness:
  "exited (the (step unactivated_config init (MainE Go))) = Some 1 \<and>
   mpc init = M_CheckEnv \<and>
   env_LISTEN_PID unactivated_config \<noteq> itoa_pid unactivated_config \<and>
   dialing (the (run (example_config (3600 * Second) (30 * Second)) init second_client)) \<and>
   exited (the (step (example_config (3600 * Second) (30 * Second))
     (the (run (example_config (3600 * Second) (30 * Second)) init second_client))
     (MainE Err))) = Some 0"
proof -
  let ?cfg = "example_config (3600 * Second) (30 * Second)"
  let ?s = "the (run ?cfg init second_client)"
  have s1: "step unactivated_config init (MainE Go)
              = Some (the (step unactivated_config init (MainE Go)))" by code_simp
  have e1: "exited (the (step unactivated_config init (MainE Go))) = Some 1" by code_simp
  have p1: "mpc init = M_CheckEnv" by code_simp
  have e2: "exited (the (step ?cfg ?s (MainE Err))) = Some 0" by code_simp
  have d2: "dialing ?s" by code_simp
  from C6_exit_codes [OF s1 e1] p1
  have "env_LISTEN_PID unactivated_config \<noteq> itoa_pid unactivated_config" by blast
  then show ?thesis using e1 p1 d2 e2 by blast
qed

text \<open>
  Claim C6 as stated fails at the startup check: with \<open>LISTEN_PID\<close> unset the process
  prints its message and exits with status 1.
\<close>

theorem C6_environment_check_counterexample:
  "env_LISTEN_PID unactivated_config \<noteq> itoa_pid unactivated_config \<and>
   run unactivated_config init [MainE Go] =
     Some (init\<lparr> trace := [(0, MainT, Print MsgNotSystemd), (0, MainT, Exit 1)],
                  exited := Some 1 \<rparr>) \<and>
   exited (the (run unactivated_config init [MainE Go])) \<noteq> Some 0"
  by code_simp

text \<open>
  Claim C8, as amended. In every execution \<open>startSystemdUnit\<close> is called at most once,
  exactly once in every execution that has reached the accept loop, and before any
  accept returns; \<open>stopSystemdUnit\<close> is called at most once, only by the supervisor
  goroutine, and only with a non-zero idle timeout and at least that timeout after the
  supervisor last armed its timer.
\<close>

theorem C8_unit_controller_calls:
  assumes "run cfg init es = Some s"
  shows "length (starts (trace s)) \<le> 1 \<and>
         (\<not> starting s \<longrightarrow> length (starts (trace s)) = 1) \<and>
         (\<forall>pre e post. trace s = pre @ e # post \<and> is_accept (snd (snd e))
            \<longrightarrow> length (starts pre) = 1) \<and>
         length (stops (trace s)) \<le> 1 \<and>
         (\<forall>e \<in> set (stops (trace s)).
            fst (snd e) = SupT \<and> timeout cfg \<noteq> 0 \<and> arm_times (trace s) \<noteq> [] \<and>
            timeout cfg \<le> fst e - last (arm_times (trace s)))"
proof -
  have u: "unit_inv s" using assms by (rule unit_inv_run)
  have v: "sup_inv cfg s" using assms by (rule sup_inv_run)
  have a: "length (starts (trace s)) \<le> 1"
    using u by (cases "mpc s") (simp_all add: unit_inv_def)
  have b: "\<not> starting s \<longrightarrow> length (starts (trace s)) = 1"
    using u by (cases "mpc s") (simp_all add: unit_inv_def starting_def)
  have aas: "accepts_after_start 0 (acts (trace s))"
    using u by (simp add: unit_inv_def)
  have c: "\<forall>pre e post. trace s = pre @ e # post \<and> is_accept (snd (snd e))
             \<longrightarrow> length (starts pre) = 1"
    using accepts_after_start_split [OF aas] by blast
  have d: "length (stops (trace s)) \<le> 1"
    using v by (auto simp: sup_inv_def split: if_splits)
  have e: "\<forall>e \<in> set (stops (trace s)).
             fst (snd e) = SupT \<and> timeout cfg \<noteq> 0 \<and> arm_times (trace s) \<noteq> [] \<and>
             timeout cfg \<le> fst e - last (arm_times (trace s))"
    using v by (auto simp: sup_inv_def split: if_splits)
  show ?thesis using a b c d e by blast
qed

theorem C8_unit_controller_calls_witness:
  "\<not> starting (the (run (example_config (2 * Second) (30 * Second)) init first_client)) \<and>
   length (starts (trace (the (run (example_config (2 * Second) (30 * Second)) init
     first_client)))) = 1 \<and>
   set (stops (trace (the (run (example_config (2 * Second) (30 * Second)) init
     (idle_period @ [SupE Ok]))))) = {(2 * Second, SupT, StopUnit ''x.service'')} \<and>
   timeout (example_config (2 * Second) (30 * Second)) \<noteq> 0"
proof -
  let ?cfg = "example_config (2 * Second) (30 * Second)"
  let ?a = "the (run ?cfg init first_client)"
  let ?i = "the (run ?cfg init (idle_period @ [SupE Ok]))"
  have ra: "run ?cfg init first_client = Some ?a" by code_simp
  have ri: "run ?cfg init (idle_period @ [SupE Ok]) = Some ?i" by code_simp
  have ns: "\<not> starting ?a" by code_simp
  have st: "set (stops (trace ?i)) = {(2 * Second, SupT, StopUnit ''x.service'')}"
    by code_simp
  from C8_unit_controller_calls [OF ra] ns
  have one: "length (starts (trace ?a)) = 1" by blast
  from C8_unit_controller_calls [OF ri] st
  have "timeout ?cfg \<noteq> 0" by (simp del: run.simps)
  then show ?thesis using ns one st by blast
qed

text \<open>
  Claim C8 as stated fails for an execution that ends at the startup check: the process
  exits and start has not been called.
\<close>

theorem C8_no_start_counterexample:
  "exited (the (run unactivated_config init [MainE Go])) = Some 1 \<and>
   length (starts (trace (the (run unactivated_config init [MainE Go])))) = 0 \<and>
   length (starts (trace (the (run unactivated_config init [MainE Go])))) \<noteq> 1"
  by code_simp

section \<open>The byte forwarders\<close>

lemma fwd_acts_simps [simp]:
  "fwd_acts i [] = []"
  "fwd_acts i (tr @ tr') = fwd_acts i tr @ fwd_acts i tr'"
  "fwd_acts i ((t, j, a) # tr) = (if j = FwdT i then a # fwd_acts i tr else fwd_acts i tr)"
  by (simp_all add: fwd_acts_def)

lemma conn_closed_simps [simp]:
  "conn_closed [] = False"
  "conn_closed (tr @ tr') = (conn_closed tr \<or> conn_closed tr')"
  "conn_closed ((t, j, a) # tr) =
     ((case a of Close (Conn c) \<Rightarrow> True | _ \<Rightarrow> False) \<or> conn_closed tr)"
  by (simp_all add: conn_closed_def)

lemma rounds_simps [simp]:
  "rounds d [] = []"
  "rounds d (bss @ [bs]) = rounds d bss @ [ReadOk bs, Signal, Write d bs]"
  by (simp_all add: rounds_def)

lemma fwd_shape_main:
  assumes "main_step cfg s r = Some s'" "fwd_shape s i"
  shows "fwd_shape s' i"
  using assms
  by (cases rule: main_step_elim)
     (auto simp: fwd_shape_def effect_defs nth_append pending_def less_Suc_eq
           intro: exI [of _ "[]"] split: if_splits)

lemma fwd_shape_sup:
  assumes "sup_step cfg s r = Some s'" "fwd_shape s i"
  shows "fwd_shape s' i"
  using assms
  by (cases rule: sup_step_elim) (auto simp: fwd_shape_def effect_defs)

lemma fwd_shape_fwd:
  assumes "fwd_step cfg s j r = Some s'" "fwd_shape s i"
  shows "fwd_shape s' i"
  using assms(1)
proof (cases rule: fwd_step_elim)
  case (ReadOk bs)
  then show ?thesis using assms(2)
    by (cases "i = j") (auto simp: fwd_shape_def effect_defs pending_def)
next
  case (ReadErr bs)
  then show ?thesis using assms(2)
    by (cases "i = j") (auto simp: fwd_shape_def effect_defs pending_def)
next
  case (Send bs t0)
  then show ?thesis using assms(2)
    by (cases "i = j") (auto simp: fwd_shape_def effect_defs pending_def)
next
  case (Write bs)
  show ?thesis
  proof (cases "i = j")
    case True
    from assms(2) Write(1,2) True obtain bss where
      "fwd_acts j (trace s) = rounds (to_conn (fwds s ! j)) bss @ [ReadOk bs, Signal]"
      by (auto simp: fwd_shape_def pending_def)
    then have "fwd_acts j (trace s')
                 = rounds (to_conn (fwds s' ! j)) (bss @ [bs]) @ pending (fpc (fwds s' ! j))"
      using Write by (simp add: effect_defs pending_def)
    then have "\<exists>bss'. fwd_acts j (trace s')
                 = rounds (to_conn (fwds s' ! j)) bss' @ pending (fpc (fwds s' ! j))"
      by blast
    moreover have "j < length (fwds s')" using Write by (simp add: effect_defs)
    ultimately show ?thesis using True by (simp add: fwd_shape_def)
  next
    case False
    then show ?thesis using assms(2) Write
      by (auto simp: fwd_shape_def effect_defs)
  qed
qed

lemma fwd_inv_step:
  assumes "fwd_inv s" "step cfg s e = Some s'"
  shows "fwd_inv s'"
  using assms(2)
proof (cases rule: step_cases)
  case (Tick d)
  then show ?thesis using assms(1) by (simp add: fwd_inv_def fwd_shape_def)
next
  case (Main r)
  from Main(2) have "\<not> conn_closed (trace s')" using assms(1)
    by (cases rule: main_step_elim) (auto simp: fwd_inv_def effect_defs)
  then show ?thesis using assms(1) Main fwd_shape_main by (auto simp: fwd_inv_def)
next
  case (Sup r)
  from Sup(2) have "\<not> conn_closed (trace s')" using assms(1)
    by (cases rule: sup_step_elim) (auto simp: fwd_inv_def effect_defs)
  then show ?thesis using assms(1) Sup fwd_shape_sup by (auto simp: fwd_inv_def)
next
  case (Fwd i r)
  from Fwd(2) have "\<not> conn_closed (trace s')" using assms(1)
    by (cases rule: fwd_step_elim) (auto simp: fwd_inv_def effect_defs)
  then show ?thesis using assms(1) Fwd fwd_shape_fwd by (auto simp: fwd_inv_def)
qed

lemma fwd_inv_run:
  assumes "run cfg init es = Some s"
  shows "fwd_inv s"
proof (rule run_invariant [OF assms])
  show "fwd_inv init" by (simp add: fwd_inv_def fwd_shape_def init_def)
qed (rule fwd_inv_step)

lemma armed_inv_step:
  assumes "armed_inv s" "step cfg s e = Some s'"
  shows "armed_inv s'"
  using assms(2)
proof (cases rule: step_cases)
  case (Tick d)
  then show ?thesis using assms(1) by (simp add: armed_inv_def starting_def)
next
  case (Main r)
  from Main(2) show ?thesis using assms(1)
    by (cases rule: main_step_elim) (auto simp: armed_inv_def effect_defs starting_def)
next
  case (Sup r)
  from Sup(2) show ?thesis using assms(1)
    by (cases rule: sup_step_elim) (auto simp: armed_inv_def effect_defs starting_def)
next
  case (Fwd i r)
  from Fwd(2) show ?thesis using assms(1)
    by (cases rule: fwd_step_elim) (auto simp: armed_inv_def effect_defs starting_def)
qed

lemma armed_inv_run:
  assumes "run cfg init es = Some s"
  shows "armed_inv s"
proof (rule run_invariant [OF assms])
  show "armed_inv init" by (simp add: armed_inv_def init_def starting_def)
qed (rule armed_inv_step)

lemma forwarder_armed:
  assumes "run cfg init es = Some s" "i < length (fwds s)"
  obtains t0 where "supervisor s = S_Select t0"
proof -
  have "armed_inv s" using assms(1) by (rule armed_inv_run)
  then have "supervisor s \<noteq> S_None" using assms(2) by (auto simp: armed_inv_def)
  then show ?thesis using that by (cases "supervisor s") auto
qed

text \<open>
  Claim C7. A forwarder waiting in \<open>Read\<close> takes every result of the read: a successful
  read of some bytes is followed by exactly one activity signal and then by the write of
  exactly those bytes to the destination, after which it reads again; a read error makes
  it return, and a forwarder that has returned takes no further step, so it sends no
  further signal. Accordingly what a forwarder has done is, at every moment, a sequence
  of complete rounds (read, signal, write of the bytes read) followed by the part of a
  round its program counter stands for.
\<close>

theorem C7_forwarder_trace:
  assumes "run cfg init es = Some s" and "i < length (fwds s)"
  shows "(\<exists>bss. fwd_acts i (trace s)
                  = rounds (to_conn (fwds s ! i)) bss @ pending (fpc (fwds s ! i))) \<and>
         (exited s = None \<and> fpc (fwds s ! i) = F_Read \<and> length bs \<le> buffer_size \<longrightarrow>
            step cfg s (FwdE i (ReadRes bs False)) =
              Some (s\<lparr> fwds := (fwds s)[i := (fwds s ! i)\<lparr> fpc := F_Send bs \<rparr>],
                        trace := trace s @ [(now s, FwdT i, ReadOk bs)] \<rparr>) \<and>
            step cfg s (FwdE i (ReadRes bs True)) =
              Some (s\<lparr> fwds := (fwds s)[i := (fwds s ! i)\<lparr> fpc := F_Done \<rparr>],
                        trace := trace s @ [(now s, FwdT i, ReadErr),
                                            (now s, FwdT i, Return)] \<rparr>) \<and>
            run cfg s [FwdE i (ReadRes bs False), FwdE i Go, FwdE i Ok] =
              Some (s\<lparr> supervisor := S_Select (now s),
                        trace := trace s @ [(now s, FwdT i, ReadOk bs),
                                            (now s, FwdT i, Signal),
                                            (now s, FwdT i, Write (to_conn (fwds s ! i)) bs)] \<rparr>)) \<and>
         (exited s = None \<and> fpc (fwds s ! i) = F_Send bs \<longrightarrow>
            step cfg s (FwdE i Go) =
              Some (s\<lparr> supervisor := S_Select (now s),
                        fwds := (fwds s)[i := (fwds s ! i)\<lparr> fpc := F_Write bs \<rparr>],
                        trace := trace s @ [(now s, FwdT i, Signal)] \<rparr>)) \<and>
         (exited s = None \<and> fpc (fwds s ! i) = F_Write bs \<and> (r = Ok \<or> r = Err) \<longrightarrow>
            step cfg s (FwdE i r) =
              Some (s\<lparr> fwds := (fwds s)[i := (fwds s ! i)\<lparr> fpc := F_Read \<rparr>],
                        trace := trace s @
                          [(now s, FwdT i, Write (to_conn (fwds s ! i)) bs)] \<rparr>)) \<and>
         (fpc (fwds s ! i) = F_Done \<longrightarrow> step cfg s (FwdE i r) = None)"
proof -
  have "fwd_inv s" using assms(1) by (rule fwd_inv_run)
  then have "fwd_shape s i" by (simp add: fwd_inv_def)
  then have shape: "\<exists>bss. fwd_acts i (trace s)
                  = rounds (to_conn (fwds s ! i)) bss @ pending (fpc (fwds s ! i))"
    using assms(2) by (simp add: fwd_shape_def)
  obtain t0 where sel: "supervisor s = S_Select t0"
    using assms by (rule forwarder_armed)
  have rd: "step cfg s (FwdE i (ReadRes bs False)) =
              Some (s\<lparr> fwds := (fwds s)[i := (fwds s ! i)\<lparr> fpc := F_Send bs \<rparr>],
                        trace := trace s @ [(now s, FwdT i, ReadOk bs)] \<rparr>) \<and>
            step cfg s (FwdE i (ReadRes bs True)) =
              Some (s\<lparr> fwds := (fwds s)[i := (fwds s ! i)\<lparr> fpc := F_Done \<rparr>],
                        trace := trace s @ [(now s, FwdT i, ReadErr),
                                            (now s, FwdT i, Return)] \<rparr>) \<and>
            run cfg s [FwdE i (ReadRes bs False), FwdE i Go, FwdE i Ok] =
              Some (s\<lparr> supervisor := S_Select (now s),
                        trace := trace s @ [(now s, FwdT i, ReadOk bs),
                                            (now s, FwdT i, Signal),
                                            (now s, FwdT i, Write (to_conn (fwds s ! i)) bs)] \<rparr>)"
    if "exited s = None" "fpc (fwds s ! i) = F_Read" "length bs \<le> buffer_size"
  proof -
    have same: "(fwds s ! i)\<lparr> fpc := F_Read \<rparr> = fwds s ! i"
      using that(2) by simp
    show ?thesis
      using that assms(2) sel
      by (simp add: step_def fwd_step_def effect_defs same)
  qed
  have sd: "step cfg s (FwdE i Go) =
              Some (s\<lparr> supervisor := S_Select (now s),
                        fwds := (fwds s)[i := (fwds s ! i)\<lparr> fpc := F_Write bs \<rparr>],
                        trace := trace s @ [(now s, FwdT i, Signal)] \<rparr>)"
    if "exited s = None" "fpc (fwds s ! i) = F_Send bs"
    using that assms(2) sel by (simp add: step_def fwd_step_def effect_defs)
  have wr: "step cfg s (FwdE i r) =
              Some (s\<lparr> fwds := (fwds s)[i := (fwds s ! i)\<lparr> fpc := F_Read \<rparr>],
                        trace := trace s @
                          [(now s, FwdT i, Write (to_conn (fwds s ! i)) bs)] \<rparr>)"
    if "exited s = None" "fpc (fwds s ! i) = F_Write bs" "r = Ok \<or> r = Err"
    using that assms(2) by (auto simp: step_def fwd_step_def effect_defs)
  have dn: "step cfg s (FwdE i r) = None" if "fpc (fwds s ! i) = F_Done"
    using that assms(2) by (simp add: step_def fwd_step_def)
  show ?thesis using shape rd sd wr dn by blast
qed


theorem C7_forwarder_trace_witness:
  "fpc (fwds (the (run (example_config (3600 * Second) (30 * Second)) init one_pair)) ! 1)
     = F_Read \<and>
   map_option (\<lambda>s. (fpc (fwds s ! 1), drop 9 (trace s)))
     (step (example_config (3600 * Second) (30 * Second))
        (the (run (example_config (3600 * Second) (30 * Second)) init one_pair))
        (FwdE 1 (ReadRes [] True)))
     = Some (F_Done, [(0, FwdT 1, ReadErr), (0, FwdT 1, Return)]) \<and>
   map_option (\<lambda>s. (fpc (fwds s ! 1), drop 9 (trace s)))
     (run (example_config (3600 * Second) (30 * Second))
        (the (run (example_config (3600 * Second) (30 * Second)) init one_pair))
        [FwdE 1 (ReadRes [111, 107] False), FwdE 1 Go, FwdE 1 Ok])
     = Some (F_Read, [(0, FwdT 1, ReadOk [111, 107]), (0, FwdT 1, Signal),
                      (0, FwdT 1, Write 1 [111, 107])]) \<and>
   step (example_config (3600 * Second) (30 * Second))
     (the (run (example_config (3600 * Second) (30 * Second)) init
        (one_pair @ [FwdE 1 (ReadRes [] True)])))
     (FwdE 1 (ReadRes [111, 107] False)) = None"
proof -
  let ?cfg = "example_config (3600 * Second) (30 * Second)"
  let ?s = "the (run ?cfg init one_pair)"
  let ?d = "the (run ?cfg init (one_pair @ [FwdE 1 (ReadRes [] True)]))"
  have r: "run ?cfg init one_pair = Some ?s" by code_simp
  have l: "1 < length (fwds ?s)" by code_simp
  have x: "exited ?s = None" by code_simp
  have p: "fpc (fwds ?s ! 1) = F_Read" by code_simp
  have t: "to_conn (fwds ?s ! 1) = 1" by code_simp
  have n: "now ?s = 0" by code_simp
  have k: "length (trace ?s) = 9" by code_simp
  have b0: "length ([] :: bytes) \<le> buffer_size" by code_simp
  have b2: "length ([111, 107] :: bytes) \<le> buffer_size" by code_simp
  have rd: "run ?cfg init (one_pair @ [FwdE 1 (ReadRes [] True)]) = Some ?d" by code_simp
  have ld: "1 < length (fwds ?d)" by code_simp
  have pd: "fpc (fwds ?d ! 1) = F_Done" by code_simp
  from C7_forwarder_trace [OF r l, where bs = "[]"] x p b0
  have e1: "map_option (\<lambda>s. (fpc (fwds s ! 1), drop 9 (trace s)))
              (step ?cfg ?s (FwdE 1 (ReadRes [] True)))
            = Some (F_Done, [(0, FwdT 1, ReadErr), (0, FwdT 1, Return)])"
    using l n k by (simp del: run.simps)
  from C7_forwarder_trace [OF r l, where bs = "[111, 107]"] x p b2
  have e2: "map_option (\<lambda>s. (fpc (fwds s ! 1), drop 9 (trace s)))
              (run ?cfg ?s [FwdE 1 (ReadRes [111, 107] False), FwdE 1 Go, FwdE 1 Ok])
            = Some (F_Read, [(0, FwdT 1, ReadOk [111, 107]), (0, FwdT 1, Signal),
                             (0, FwdT 1, Write 1 [111, 107])])"
    using l n k t by (simp del: run.simps)
  from C7_forwarder_trace [OF rd ld, where r = "ReadRes [111, 107] False"] pd
  have e3: "step ?cfg ?d (FwdE 1 (ReadRes [111, 107] False)) = None"
    by blast
  show ?thesis using p e1 e2 e3 by blast
qed

text \<open>
  Claim C9. The claim says that one side closing ends both forwarders of the pair, each
  closing its connections. The comment at the \<open>return\<close> of \<open>proxyNetworkConnections\<close>
  says that the connection is scrapped, but the function closes nothing. In the code a
  forwarder whose read fails returns, logging nothing but the failed read and the
  return; a forwarder is done after a step exactly when it was done before or the step
  is its own failed read; a step of anything but this forwarder leaves it unchanged, so
  the other forwarder of the pair stays in its loop; and the process never closes a
  connection.
\<close>

theorem C9_forwarder_ends_on_own_read_error:
  assumes "run cfg init es = Some s" and "j < length (fwds s)"
  shows "(exited s = None \<and> fpc (fwds s ! j) = F_Read \<and> length bs \<le> buffer_size \<longrightarrow>
            step cfg s (FwdE j (ReadRes bs True)) =
              Some (s\<lparr> fwds := (fwds s)[j := (fwds s ! j)\<lparr> fpc := F_Done \<rparr>],
                        trace := trace s @ [(now s, FwdT j, ReadErr),
                                            (now s, FwdT j, Return)] \<rparr>)) \<and>
         (\<forall>e s'. step cfg s e = Some s' \<longrightarrow>
            j < length (fwds s') \<and>
            from_conn (fwds s' ! j) = from_conn (fwds s ! j) \<and>
            to_conn (fwds s' ! j) = to_conn (fwds s ! j) \<and>
            (fpc (fwds s' ! j) = F_Done \<longleftrightarrow>
               fpc (fwds s ! j) = F_Done \<or>
               (fpc (fwds s ! j) = F_Read \<and> (\<exists>bs. e = FwdE j (ReadRes bs True)))) \<and>
            ((\<forall>r. e \<noteq> FwdE j r) \<longrightarrow> fwds s' ! j = fwds s ! j) \<and>
            \<not> conn_closed (trace s'))"
proof -
  have inv: "fwd_inv s" using assms(1) by (rule fwd_inv_run)
  have en: "step cfg s (FwdE j (ReadRes bs True)) =
              Some (s\<lparr> fwds := (fwds s)[j := (fwds s ! j)\<lparr> fpc := F_Done \<rparr>],
                        trace := trace s @ [(now s, FwdT j, ReadErr),
                                            (now s, FwdT j, Return)] \<rparr>)"
    if "exited s = None" "fpc (fwds s ! j) = F_Read" "length bs \<le> buffer_size"
    using that assms(2) by (simp add: step_def fwd_step_def effect_defs)
  have fr: "j < length (fwds s') \<and>
            from_conn (fwds s' ! j) = from_conn (fwds s ! j) \<and>
            to_conn (fwds s' ! j) = to_conn (fwds s ! j) \<and>
            (fpc (fwds s' ! j) = F_Done \<longleftrightarrow>
               fpc (fwds s ! j) = F_Done \<or>
               (fpc (fwds s ! j) = F_Read \<and> (\<exists>bs. e = FwdE j (ReadRes bs True)))) \<and>
            ((\<forall>r. e \<noteq> FwdE j r) \<longrightarrow> fwds s' ! j = fwds s ! j) \<and>
            \<not> conn_closed (trace s')"
    if st: "step cfg s e = Some s'" for e s'
  proof -
    have "fwd_inv s'" using inv st by (rule fwd_inv_step)
    then have nc: "\<not> conn_closed (trace s')" by (simp add: fwd_inv_def)
    from st show ?thesis
    proof (cases rule: step_cases)
      case (Tick d)
      then show ?thesis using nc assms(2) by simp
    next
      case (Main r)
      from Main(2) show ?thesis using nc assms(2) Main(1)
        by (cases rule: main_step_elim) (auto simp: effect_defs nth_append)
    next
      case (Sup r)
      from Sup(2) show ?thesis using nc assms(2) Sup(1)
        by (cases rule: sup_step_elim) (auto simp: effect_defs)
    next
      case (Fwd i r)
      from Fwd(2) show ?thesis using nc assms(2) Fwd(1)
        by (cases rule: fwd_step_elim; cases "i = j") (auto simp: effect_defs)
    qed
  qed
  show ?thesis using en fr by blast
qed

theorem C9_forwarder_ends_on_own_read_error_witness:
  "fpc (fwds (the (run (example_config (3600 * Second) (30 * Second)) init one_pair)) ! 0)
     = F_Read \<and>
   fpc (fwds (the (run (example_config (3600 * Second) (30 * Second)) init one_pair)) ! 1)
     = F_Read \<and>
   fpc (fwds (the (step (example_config (3600 * Second) (30 * Second))
     (the (run (example_config (3600 * Second) (30 * Second)) init one_pair))
     (FwdE 0 (ReadRes [] True)))) ! 0) = F_Done \<and>
   fwds (the (step (example_config (3600 * Second) (30 * Second))
     (the (run (example_config (3600 * Second) (30 * Second)) init one_pair))
     (FwdE 0 (ReadRes [] True)))) ! 1
   = fwds (the (run (example_config (3600 * Second) (30 * Second)) init one_pair)) ! 1 \<and>
   \<not> conn_closed (trace (the (step (example_config (3600 * Second) (30 * Second))
     (the (run (example_config (3600 * Second) (30 * Second)) init one_pair))
     (FwdE 0 (ReadRes [] True))))) \<and>
   map (\<lambda>e. (fst (snd e), snd (snd e)))
     (drop 9 (trace (the (run (example_config (3600 * Second) (30 * Second)) init
        client_gone))))
   = [(FwdT 0, ReadErr), (FwdT 0, Return), (FwdT 1, ReadOk [111, 107]), (FwdT 1, Signal),
      (FwdT 1, Write 1 [111, 107])] \<and>
   fpc (fwds (the (run (example_config (3600 * Second) (30 * Second)) init
      client_gone)) ! 0) = F_Done \<and>
   fpc (fwds (the (run (example_config (3600 * Second) (30 * Second)) init
      client_gone)) ! 1) = F_Read \<and>
   \<not> conn_closed (trace (the (run (example_config (3600 * Second) (30 * Second)) init
      client_gone))) \<and>
   exited (the (run (example_config (3600 * Second) (30 * Second)) init client_gone)) = None"
proof -
  let ?cfg = "example_config (3600 * Second) (30 * Second)"
  let ?s = "the (run ?cfg init one_pair)"
  let ?e = "FwdE 0 (ReadRes [] True)"
  let ?s' = "the (step ?cfg ?s ?e)"
  let ?g = "the (run ?cfg init client_gone)"
  have r: "run ?cfg init one_pair = Some ?s" by code_simp
  have l0: "0 < length (fwds ?s)" by code_simp
  have l1: "1 < length (fwds ?s)" by code_simp
  have x: "exited ?s = None" by code_simp
  have p0: "fpc (fwds ?s ! 0) = F_Read" by code_simp
  have p1: "fpc (fwds ?s ! 1) = F_Read" by code_simp
  have b0: "length ([] :: bytes) \<le> buffer_size" by code_simp
  from C9_forwarder_ends_on_own_read_error [OF r l0, where bs = "[]"] x p0 b0
  have st: "step ?cfg ?s ?e =
              Some (?s\<lparr> fwds := (fwds ?s)[0 := (fwds ?s ! 0)\<lparr> fpc := F_Done \<rparr>],
                         trace := trace ?s @ [(now ?s, FwdT 0, ReadErr),
                                              (now ?s, FwdT 0, Return)] \<rparr>)"
    by blast
  then have st': "step ?cfg ?s ?e = Some ?s'" by (simp del: run.simps)
  have d0: "fpc (fwds ?s' ! 0) = F_Done" using st l0 by (simp del: run.simps)
  note fr = C9_forwarder_ends_on_own_read_error [OF r l1, where bs = "[]", THEN conjunct2, rule_format, OF st']
  have same: "fwds ?s' ! 1 = fwds ?s ! 1" using fr by simp
  have nc: "\<not> conn_closed (trace ?s')" using fr by simp
  have g1: "map (\<lambda>e. (fst (snd e), snd (snd e))) (drop 9 (trace ?g))
            = [(FwdT 0, ReadErr), (FwdT 0, Return), (FwdT 1, ReadOk [111, 107]),
               (FwdT 1, Signal), (FwdT 1, Write 1 [111, 107])]" by code_simp
  have g2: "fpc (fwds ?g ! 0) = F_Done" by code_simp
  have g3: "fpc (fwds ?g ! 1) = F_Read" by code_simp
  have g4: "\<not> conn_closed (trace ?g)" by code_simp
  have g5: "exited ?g = None" by code_simp
  show ?thesis using p0 p1 d0 same nc g1 g2 g3 g4 g5 by blast
qed

section \<open>The older variant\<close>

lemma old_dial_loop_below:
  assumes "n < 10"
  shows "old_dial_loop n rs =
           (if True \<in> set rs then OldSpawn else OldDialing, n,
            concat (replicate (length (takeWhile Not rs))
                      [Print MsgError, Sleep (100 * Millisecond)]))"
  using assms by (induction rs) (auto simp: old_after_loop_def)

text \<open>
  Claim C10. In the older variant (\<open>socket-activator.go\<close>) \<open>tryCount\<close> starts at 0 and is
  never changed, so for every list of dial results the loop ends with \<open>tryCount = 0\<close>,
  the branch \<open>tryCount >= 10\<close> after the loop is never taken, the forwarders are started
  exactly when some dial succeeded, and each failed dial before that costs one message
  and one sleep of 100 ms: after \<open>n\<close> failures the loop is still dialing, for every \<open>n\<close>.
\<close>

theorem C10_old_variant_never_gives_up:
  "old_connect rs =
     (if True \<in> set rs then OldSpawn else OldDialing, 0,
      concat (replicate (length (takeWhile Not rs))
                [Print MsgError, Sleep (100 * Millisecond)])) \<and>
   fst (old_connect rs) \<noteq> OldAbandon \<and>
   old_connect (replicate n False) =
     (OldDialing, 0, concat (replicate n [Print MsgError, Sleep (100 * Millisecond)]))"
proof -
  have a: "old_connect rs =
     (if True \<in> set rs then OldSpawn else OldDialing, 0,
      concat (replicate (length (takeWhile Not rs))
                [Print MsgError, Sleep (100 * Millisecond)]))"
    by (simp add: old_connect_def old_dial_loop_below)
  have "takeWhile Not (replicate n False) = replicate n False"
    by (induction n) auto
  then have b: "old_connect (replicate n False) =
     (OldDialing, 0, concat (replicate n [Print MsgError, Sleep (100 * Millisecond)]))"
    by (simp add: old_connect_def old_dial_loop_below)
  show ?thesis using a b by simp
qed

theorem C10_old_variant_never_gives_up_witness:
  "old_connect (replicate 12 False) =
     (OldDialing, 0, concat (replicate 12 [Print MsgError, Sleep (100 * Millisecond)])) \<and>
   old_connect [False, False, True] =
     (OldSpawn, 0, [Print MsgError, Sleep (100 * Millisecond),
                    Print MsgError, Sleep (100 * Millisecond)])"
proof -
  have "old_connect [False, False, True] =
     (OldSpawn, 0, [Print MsgError, Sleep (100 * Millisecond),
                    Print MsgError, Sleep (100 * Millisecond)])"
    using C10_old_variant_never_gives_up [of "[False, False, True]" 0] by simp
  moreover have "old_connect (replicate 12 False) =
     (OldDialing, 0, concat (replicate 12 [Print MsgError, Sleep (100 * Millisecond)]))"
    using C10_old_variant_never_gives_up [of "[]" 12] by blast
  ultimately show ?thesis by blast
qed

end
